theory Spec2Isabelle
  imports Main
begin

unbundle bit_operations_syntax

section \<open>lib/fileutils.c: the process environment\<close>

text \<open>
  The functions of \<^verbatim>\<open>lib/fileutils.c\<close> are thin layers over system calls. The calls
  themselves belong to the C library and the kernel; they are modelled here as
  functions on an explicit process state \<open>os\<close>: the descriptor table, the file tree,
  the creation mask, \<open>errno\<close>, and a tape of environment faults. Every C function
  of the file is then a HOL function \<open>os \<Rightarrow> result \<times> os\<close> that makes the same calls in
  the same order and takes the same branches on their results.

  Build-time switches (\<^verbatim>\<open>#ifdef\<close>) are the fields of \<open>config\<close>.
\<close>

record config =
  HAVE_MKOSTEMP :: bool
  HAVE_F_DUPFD_CLOEXEC :: bool
  HAVE_SENDFILE :: bool

subsection \<open>Constants of the system headers\<close>

text \<open>
  The values are those of Linux (\<^verbatim>\<open>asm-generic/errno-base.h\<close>, \<^verbatim>\<open>asm-generic/errno.h\<close>,
  \<^verbatim>\<open>asm-generic/fcntl.h\<close>, \<^verbatim>\<open>linux/limits.h\<close>); the headers are not part of the
  repository.
\<close>

definition EPERM :: int where "EPERM = 1"
definition ENOENT :: int where "ENOENT = 2"
definition EIO :: int where "EIO = 5"
definition EBADF :: int where "EBADF = 9"
definition ENOMEM :: int where "ENOMEM = 12"
definition EACCES :: int where "EACCES = 13"
definition EEXIST :: int where "EEXIST = 17"
definition ENOTDIR :: int where "ENOTDIR = 20"
definition EISDIR :: int where "EISDIR = 21"
definition EINVAL :: int where "EINVAL = 22"
definition EMFILE :: int where "EMFILE = 24"
definition ENOSPC :: int where "ENOSPC = 28"
definition ERANGE :: int where "ERANGE = 34"
definition EINTR :: int where "EINTR = 4"
definition ENAMETOOLONG :: int where "ENAMETOOLONG = 36"

definition NAME_MAX :: nat where "NAME_MAX = 255"
definition PATH_MAX :: nat where "PATH_MAX = 4096"

definition FD_CLOEXEC :: int where "FD_CLOEXEC = 1"
definition O_RDWR :: int where "O_RDWR = 2"
definition O_CREAT :: int where "O_CREAT = 64"
definition O_EXCL :: int where "O_EXCL = 128"
definition O_CLOEXEC :: int where "O_CLOEXEC = 524288"

subsection \<open>The process state\<close>

text \<open>
  A file-tree entry is a directory or a regular file, each with its permission bits.
  Entries are keyed by their canonical absolute path, the list of component names
  from the root (\<open>[]\<close> is the root directory).
\<close>

datatype node = Dir int | Reg int

text \<open>
  A fault is a failure the environment can impose on a call whatever the modelled
  state is (an I/O error, memory or disk exhaustion, a permission or signal). The
  tape \<open>faults\<close> holds one entry per fallible call still to come: \<open>None\<close> lets the
  call run on the modelled state, \<open>Some f\<close> makes it fail with the errno of \<open>f\<close>.
  An empty tape means no further faults. The calls that take an entry are \<^verbatim>\<open>dup\<close>,
  \<^verbatim>\<open>fcntl\<close>, \<^verbatim>\<open>close\<close>, \<^verbatim>\<open>mkdir\<close>, \<^verbatim>\<open>unlink\<close>, \<^verbatim>\<open>mkstemp\<close> and \<^verbatim>\<open>mkostemp\<close>,
  \<^verbatim>\<open>opendir\<close>, and the allocations of \<^verbatim>\<open>asprintf\<close> and \<^verbatim>\<open>strdup\<close>.
\<close>

datatype fault =
  Fault_EPERM | Fault_EIO | Fault_ENOMEM | Fault_EACCES | Fault_ENOSPC | Fault_EINTR

fun fault_errno :: "fault \<Rightarrow> int" where
  "fault_errno Fault_EPERM = EPERM"
| "fault_errno Fault_EIO = EIO"
| "fault_errno Fault_ENOMEM = ENOMEM"
| "fault_errno Fault_EACCES = EACCES"
| "fault_errno Fault_ENOSPC = ENOSPC"
| "fault_errno Fault_EINTR = EINTR"

record os =
  fdtab :: "int \<rightharpoonup> int"
  nofile :: int
  files :: "string list \<rightharpoonup> node"
  cwd :: "string list"
  umask :: int
  errno :: int
  faults :: "fault option list"
  suffixes :: "string list"
  tmp_mode :: int
  env_TMPDIR :: "string option"
  procfd :: "string list option"

text \<open>
  \<^item> \<open>fdtab\<close>: the open descriptors, each with its descriptor flags (what
    \<^verbatim>\<open>fcntl(fd, F_GETFD)\<close> returns); \<open>nofile\<close> is the table size (\<^verbatim>\<open>RLIMIT_NOFILE\<close>).
  \<^item> \<open>files\<close>, \<open>cwd\<close>, \<open>umask\<close>, \<open>errno\<close>: the file tree, the working directory,
    the file-creation mask and the thread's error code.
  \<^item> \<open>suffixes\<close>: the six-character names \<^verbatim>\<open>mkstemp\<close> will try, in order;
    \<open>tmp_mode\<close>: the mode \<^verbatim>\<open>mkstemp\<close> passes to \<^verbatim>\<open>open\<close>.
  \<^item> \<open>env_TMPDIR\<close>: the value of the environment variable \<^verbatim>\<open>TMPDIR\<close>.
  \<^item> \<open>procfd\<close>: the entry names \<^verbatim>\<open>xreaddir\<close> yields for the descriptor
    pseudo-directory, or \<open>None\<close> when the directory cannot be opened.
\<close>

definition next_fault :: "os \<Rightarrow> fault option \<times> os" where
  "next_fault s =
     (case faults s of
        [] \<Rightarrow> (None, s)
      | f # rest \<Rightarrow> (f, s\<lparr>faults := rest\<rparr>))"

definition fail :: "int \<Rightarrow> os \<Rightarrow> int \<times> os" where
  "fail e s = (- 1, s\<lparr>errno := e\<rparr>)"

definition lowest_free :: "os \<Rightarrow> int \<Rightarrow> int option" where
  "lowest_free s lo = find (\<lambda>fd. fdtab s fd = None) [lo..nofile s - 1]"

definition cloexec :: "os \<Rightarrow> int \<Rightarrow> bool" where
  "cloexec s fd =
     (case fdtab s fd of
        None \<Rightarrow> False
      | Some fl \<Rightarrow> fl AND FD_CLOEXEC = FD_CLOEXEC)"

subsection \<open>Descriptor calls\<close>

text \<open>\<^verbatim>\<open>dup(oldfd)\<close>: the lowest free descriptor, with \<^verbatim>\<open>FD_CLOEXEC\<close> clear.\<close>

definition sys_dup :: "int \<Rightarrow> os \<Rightarrow> int \<times> os" where
  "sys_dup oldfd s0 =
     (case next_fault s0 of
        (Some f, s) \<Rightarrow> fail (fault_errno f) s
      | (None, s) \<Rightarrow>
          (case fdtab s oldfd of
             None \<Rightarrow> fail EBADF s
           | Some _ \<Rightarrow>
               (case lowest_free s 0 of
                  None \<Rightarrow> fail EMFILE s
                | Some fd \<Rightarrow> (fd, s\<lparr>fdtab := (fdtab s)(fd \<mapsto> 0)\<rparr>))))"

text \<open>
  \<^verbatim>\<open>fcntl(oldfd, F_DUPFD_CLOEXEC, lowfd)\<close>: the lowest free descriptor that is at least
  \<open>lowfd\<close>, with \<^verbatim>\<open>FD_CLOEXEC\<close> set; \<^verbatim>\<open>EINVAL\<close> when \<open>lowfd\<close> is negative or not below
  the table size, \<^verbatim>\<open>EMFILE\<close> when no such descriptor is free.
\<close>

definition sys_fcntl_dupfd_cloexec :: "int \<Rightarrow> int \<Rightarrow> os \<Rightarrow> int \<times> os" where
  "sys_fcntl_dupfd_cloexec oldfd lowfd s0 =
     (case next_fault s0 of
        (Some f, s) \<Rightarrow> fail (fault_errno f) s
      | (None, s) \<Rightarrow>
          (case fdtab s oldfd of
             None \<Rightarrow> fail EBADF s
           | Some _ \<Rightarrow>
               if lowfd < 0 \<or> nofile s \<le> lowfd then fail EINVAL s
               else
                 (case lowest_free s lowfd of
                    None \<Rightarrow> fail EMFILE s
                  | Some fd \<Rightarrow> (fd, s\<lparr>fdtab := (fdtab s)(fd \<mapsto> FD_CLOEXEC)\<rparr>))))"

text \<open>\<^verbatim>\<open>fcntl(fd, F_GETFD)\<close>: the descriptor flags.\<close>

definition sys_fcntl_getfd :: "int \<Rightarrow> os \<Rightarrow> int \<times> os" where
  "sys_fcntl_getfd fd s0 =
     (case next_fault s0 of
        (Some f, s) \<Rightarrow> fail (fault_errno f) s
      | (None, s) \<Rightarrow>
          (case fdtab s fd of
             None \<Rightarrow> fail EBADF s
           | Some fl \<Rightarrow> (fl, s)))"

text \<open>
  \<^verbatim>\<open>fcntl(fd, F_SETFD, arg)\<close>: the only descriptor flag is \<^verbatim>\<open>FD_CLOEXEC\<close>; the kernel
  keeps that bit of \<open>arg\<close> and ignores every other bit.
\<close>

definition sys_fcntl_setfd :: "int \<Rightarrow> int \<Rightarrow> os \<Rightarrow> int \<times> os" where
  "sys_fcntl_setfd fd arg s0 =
     (case next_fault s0 of
        (Some f, s) \<Rightarrow> fail (fault_errno f) s
      | (None, s) \<Rightarrow>
          (case fdtab s fd of
             None \<Rightarrow> fail EBADF s
           | Some _ \<Rightarrow> (0, s\<lparr>fdtab := (fdtab s)(fd \<mapsto> arg AND FD_CLOEXEC)\<rparr>)))"

text \<open>
  \<^verbatim>\<open>close(fd)\<close>: \<^verbatim>\<open>EBADF\<close> when the descriptor is not open. An open descriptor is
  released in every case; a fault (\<^verbatim>\<open>EINTR\<close>, \<^verbatim>\<open>EIO\<close>) only changes the return value and
  \<open>errno\<close>, as on Linux.
\<close>

definition sys_close :: "int \<Rightarrow> os \<Rightarrow> int \<times> os" where
  "sys_close fd s0 =
     (case fdtab s0 fd of
        None \<Rightarrow> fail EBADF s0
      | Some _ \<Rightarrow>
          (case next_fault (s0\<lparr>fdtab := (fdtab s0)(fd := None)\<rparr>) of
             (Some f, s) \<Rightarrow> fail (fault_errno f) s
           | (None, s) \<Rightarrow> (0, s)))"

subsection \<open>Path names\<close>

text \<open>
  A path string is cut at every slash; empty pieces (repeated or trailing slashes)
  are dropped. Resolution walks the components from the root for an absolute path
  and from the working directory otherwise: every component is looked up in a
  directory that must exist, under a name of at most \<^verbatim>\<open>NAME_MAX\<close> characters; \<^verbatim>\<open>.\<close> stays,
  \<^verbatim>\<open>..\<close> goes to the parent. The walk yields the canonical position of the last
  component, which itself need not exist. A path of \<^verbatim>\<open>PATH_MAX\<close> characters or more is
  \<^verbatim>\<open>ENAMETOOLONG\<close>. The file tree holds directories and regular files only: symbolic
  links are outside the model.
\<close>

fun split_slash :: "string \<Rightarrow> string list" where
  "split_slash [] = [[]]"
| "split_slash (c # cs) =
     (if c = CHR ''/'' then [] # split_slash cs
      else (case split_slash cs of
              [] \<Rightarrow> [[c]]
            | x # xs \<Rightarrow> (c # x) # xs))"

definition components :: "string \<Rightarrow> string list" where
  "components p = filter (\<lambda>c. c \<noteq> []) (split_slash p)"

definition start_dir :: "os \<Rightarrow> string \<Rightarrow> string list" where
  "start_dir s p =
     (case p of
        [] \<Rightarrow> cwd s
      | c # _ \<Rightarrow> if c = CHR ''/'' then [] else cwd s)"

fun walk :: "(string list \<rightharpoonup> node) \<Rightarrow> string list \<Rightarrow> string list \<Rightarrow> int + string list" where
  "walk t cur [] = Inr cur"
| "walk t cur (c # cs) =
     (case t cur of
        None \<Rightarrow> Inl ENOENT
      | Some (Reg _) \<Rightarrow> Inl ENOTDIR
      | Some (Dir _) \<Rightarrow>
          if NAME_MAX < length c then Inl ENAMETOOLONG
          else if c = ''.'' then walk t cur cs
          else if c = ''..'' then walk t (butlast cur) cs
          else walk t (cur @ [c]) cs)"

definition namei :: "os \<Rightarrow> string \<Rightarrow> int + string list" where
  "namei s p =
     (if p = [] then Inl ENOENT
      else if PATH_MAX \<le> length p then Inl ENAMETOOLONG
      else walk (files s) (start_dir s p) (components p))"

text \<open>
  \<open>trailing_slash p\<close>: the path ends in a slash, so it can only name a directory.
  \<open>last_norm p\<close>: the last component is an ordinary name, not \<^verbatim>\<open>.\<close> or \<^verbatim>\<open>..\<close> or the root,
  and no slash follows it.
\<close>

definition trailing_slash :: "string \<Rightarrow> bool" where
  "trailing_slash p = (p \<noteq> [] \<and> last p = CHR ''/'')"

definition last_norm :: "string \<Rightarrow> bool" where
  "last_norm p =
     (\<not> trailing_slash p \<and> components p \<noteq> [] \<and>
      last (components p) \<noteq> ''.'' \<and> last (components p) \<noteq> ''..'')"

text \<open>
  What \<^verbatim>\<open>lstat(p)\<close> finds: the entry a path names, if any. A path that ends in a slash
  names a directory or nothing: on a regular file the call fails with \<^verbatim>\<open>ENOTDIR\<close>.
\<close>

definition resolve :: "os \<Rightarrow> string \<Rightarrow> node option" where
  "resolve s p =
     (case namei s p of
        Inl _ \<Rightarrow> None
      | Inr q \<Rightarrow>
          (case files s q of
             None \<Rightarrow> None
           | Some (Dir m) \<Rightarrow> Some (Dir m)
           | Some (Reg m) \<Rightarrow> if trailing_slash p then None else Some (Reg m)))"

subsection \<open>File-tree calls\<close>

text \<open>
  \<^verbatim>\<open>mkdir(p, mode)\<close>: \<^verbatim>\<open>EEXIST\<close> when the path names an existing entry of any type,
  otherwise a new directory with the mode \<^verbatim>\<open>mode & ~umask & 01777\<close> (the permission
  bits and the sticky bit), and with the set-group-ID bit of the parent directory.
  Trailing slashes are allowed.
\<close>

definition S_ISGID :: int where "S_ISGID = 1024"

definition inherited_gid :: "os \<Rightarrow> string list \<Rightarrow> int" where
  "inherited_gid s q =
     (case files s (butlast q) of
        Some (Dir pm) \<Rightarrow> pm AND S_ISGID
      | _ \<Rightarrow> 0)"

definition sys_mkdir :: "string \<Rightarrow> int \<Rightarrow> os \<Rightarrow> int \<times> os" where
  "sys_mkdir p mode s0 =
     (case next_fault s0 of
        (Some f, s) \<Rightarrow> fail (fault_errno f) s
      | (None, s) \<Rightarrow>
          (case namei s p of
             Inl e \<Rightarrow> fail e s
           | Inr q \<Rightarrow>
               (case files s q of
                  Some _ \<Rightarrow> fail EEXIST s
                | None \<Rightarrow>
                    (0, s\<lparr>files := (files s)(q \<mapsto>
                          Dir ((mode AND NOT (umask s) AND 1023) OR inherited_gid s q))\<rparr>))))"

text \<open>
  \<^verbatim>\<open>unlink(p)\<close> removes a regular file. Like every other call it can fail for a reason
  of the environment (\<^verbatim>\<open>EPERM\<close> in an append-only or sticky directory, \<^verbatim>\<open>EACCES\<close>,
  \<^verbatim>\<open>EIO\<close>), and then the entry stays.
\<close>

definition sys_unlink :: "string \<Rightarrow> os \<Rightarrow> int \<times> os" where
  "sys_unlink p s0 =
     (case next_fault s0 of
        (Some f, s) \<Rightarrow> fail (fault_errno f) s
      | (None, s) \<Rightarrow>
          (case namei s p of
             Inl e \<Rightarrow> fail e s
           | Inr q \<Rightarrow>
               (case files s q of
                  None \<Rightarrow> fail ENOENT s
                | Some (Dir _) \<Rightarrow> fail EISDIR s
                | Some (Reg _) \<Rightarrow>
                    if trailing_slash p then fail ENOTDIR s
                    else (0, s\<lparr>files := (files s)(q := None)\<rparr>))))"

text \<open>\<^verbatim>\<open>umask(m)\<close> installs \<^verbatim>\<open>m & 0777\<close> and returns the previous mask; it cannot fail.\<close>

definition sys_umask :: "int \<Rightarrow> os \<Rightarrow> int \<times> os" where
  "sys_umask m s = (umask s, s\<lparr>umask := m AND 511\<rparr>)"

text \<open>
  \<^verbatim>\<open>open(p, O_RDWR|O_CREAT|O_EXCL, mode)\<close>, the call inside \<^verbatim>\<open>mkstemp\<close>: a new regular
  file with the mode \<^verbatim>\<open>mode & ~umask\<close>, opened on the lowest free descriptor with the
  descriptor flags \<open>fdflags\<close>. A path whose last component is not an ordinary name
  is \<^verbatim>\<open>EISDIR\<close>.
\<close>

definition open_excl :: "string \<Rightarrow> int \<Rightarrow> int \<Rightarrow> os \<Rightarrow> int \<times> os" where
  "open_excl p mode fdflags s =
     (case lowest_free s 0 of
        None \<Rightarrow> fail EMFILE s
      | Some fd \<Rightarrow>
          (case namei s p of
             Inl e \<Rightarrow> fail e s
           | Inr q \<Rightarrow>
               if \<not> last_norm p then fail EISDIR s
               else
                 (case files s q of
                    Some _ \<Rightarrow> fail EEXIST s
                  | None \<Rightarrow>
                      (fd, s\<lparr>files := (files s)(q \<mapsto> Reg (mode AND NOT (umask s) AND 511)),
                             fdtab := (fdtab s)(fd \<mapsto> fdflags)\<rparr>))))"

text \<open>
  \<^verbatim>\<open>mkostemp(template, flags)\<close>: the template must end in \<^verbatim>\<open>XXXXXX\<close>; the six characters
  are replaced by each candidate suffix in turn until a name is free. The result is
  the descriptor (or \<open>-1\<close>), the template buffer as the call leaves it, and the state.
  \<^verbatim>\<open>mkstemp(template)\<close> is \<^verbatim>\<open>mkostemp(template, 0)\<close>.
\<close>

fun try_suffixes :: "string \<Rightarrow> int \<Rightarrow> string list \<Rightarrow> os \<Rightarrow> int \<times> string \<times> os" where
  "try_suffixes pre fdflags [] s =
     (- 1, pre @ ''XXXXXX'', s\<lparr>errno := EEXIST, suffixes := []\<rparr>)"
| "try_suffixes pre fdflags (c # cs) s =
     (case open_excl (pre @ c) (tmp_mode s) fdflags s of
        (fd, s1) \<Rightarrow>
          if fd < 0 \<and> errno s1 = EEXIST then try_suffixes pre fdflags cs s1
          else (fd, pre @ c, s1\<lparr>suffixes := cs\<rparr>))"

definition sys_mkostemp :: "string \<Rightarrow> int \<Rightarrow> os \<Rightarrow> int \<times> string \<times> os" where
  "sys_mkostemp template flags s0 =
     (case next_fault s0 of
        (Some f, s) \<Rightarrow> (- 1, template, s\<lparr>errno := fault_errno f\<rparr>)
      | (None, s) \<Rightarrow>
          if length template < 6 \<or> drop (length template - 6) template \<noteq> ''XXXXXX''
          then (- 1, template, s\<lparr>errno := EINVAL\<rparr>)
          else try_suffixes (take (length template - 6) template)
                 (if flags AND O_CLOEXEC = O_CLOEXEC then FD_CLOEXEC else 0)
                 (suffixes s) s)"

definition sys_mkstemp :: "string \<Rightarrow> os \<Rightarrow> int \<times> string \<times> os" where
  "sys_mkstemp template s = sys_mkostemp template 0 s"

subsection \<open>Allocation and the environment\<close>

text \<open>
  \<^verbatim>\<open>asprintf\<close> and \<^verbatim>\<open>strdup\<close> return the new string, or nothing when the allocation
  fails. \<^verbatim>\<open>_PATH_TMP\<close> is the macro of \<^verbatim>\<open>include/pathnames.h\<close>.
\<close>

definition sys_alloc :: "string \<Rightarrow> os \<Rightarrow> string option \<times> os" where
  "sys_alloc str s0 =
     (case next_fault s0 of
        (Some f, s) \<Rightarrow> (None, s\<lparr>errno := fault_errno f\<rparr>)
      | (None, s) \<Rightarrow> (Some str, s))"

definition sys_getenv_TMPDIR :: "os \<Rightarrow> string option" where
  "sys_getenv_TMPDIR s = env_TMPDIR s"

definition PATH_TMP :: string where
  "PATH_TMP = ''/tmp/''"

section \<open>mkstemp_cloexec and xmkstemp\<close>

text \<open>
  \<^verbatim>\<open>int mkstemp_cloexec(char *template)\<close>. With \<^verbatim>\<open>HAVE_MKOSTEMP\<close> it is one call of
  \<^verbatim>\<open>mkostemp\<close>. Otherwise it calls \<^verbatim>\<open>mkstemp\<close>, reads the descriptor flags and writes
  them back with \<^verbatim>\<open>old_flags | O_CLOEXEC\<close>; the \<^verbatim>\<open>unwind\<close> label saves \<open>errno\<close>, unlinks
  the template, closes the descriptor, restores \<open>errno\<close> and returns \<open>-1\<close>. The
  template buffer is written by \<^verbatim>\<open>mkstemp\<close>, so it is part of the result.
\<close>

definition mkstemp_unwind :: "string \<Rightarrow> int \<Rightarrow> os \<Rightarrow> int \<times> os" where
  "mkstemp_unwind template fd s =
     (let errno_save = errno s;
          (_, s1) = sys_unlink template s;
          (_, s2) = sys_close fd s1
      in (- 1, s2\<lparr>errno := errno_save\<rparr>))"

definition mkstemp_cloexec :: "config \<Rightarrow> string \<Rightarrow> os \<Rightarrow> int \<times> string \<times> os" where
  "mkstemp_cloexec cfg template s =
     (if HAVE_MKOSTEMP cfg then
        sys_mkostemp template (O_RDWR OR O_CREAT OR O_EXCL OR O_CLOEXEC) s
      else
        (case sys_mkstemp template s of
           (fd, template1, s1) \<Rightarrow>
             if fd < 0 then (fd, template1, s1)
             else
               (case sys_fcntl_getfd fd s1 of
                  (old_flags, s2) \<Rightarrow>
                    if old_flags < 0 then
                      (case mkstemp_unwind template1 fd s2 of
                         (r, s3) \<Rightarrow> (r, template1, s3))
                    else
                      (case sys_fcntl_setfd fd (old_flags OR O_CLOEXEC) s2 of
                         (r, s3) \<Rightarrow>
                           if r < 0 then
                             (case mkstemp_unwind template1 fd s3 of
                                (r', s4) \<Rightarrow> (r', template1, s4))
                           else (fd, template1, s3)))))"

text \<open>
  \<^verbatim>\<open>int xmkstemp(char **tmpname, const char *dir, const char *prefix)\<close>. The result is
  the descriptor and the value of \<^verbatim>\<open>*tmpname\<close> after the call; \<open>tmpname0\<close> is its value
  before (left alone when \<^verbatim>\<open>asprintf\<close> fails). A null \<open>dir\<close> is \<open>None\<close>.
\<close>

definition xmkstemp ::
  "config \<Rightarrow> string option \<Rightarrow> string option \<Rightarrow> string \<Rightarrow> os \<Rightarrow> (int \<times> string option) \<times> os" where
  "xmkstemp cfg tmpname0 dir prefix s =
     (let tmpenv = (case dir of Some d \<Rightarrow> Some d | None \<Rightarrow> sys_getenv_TMPDIR s);
          tmpenv = (case tmpenv of None \<Rightarrow> PATH_TMP | Some d \<Rightarrow> d)
      in case sys_alloc (tmpenv @ ''/'' @ prefix @ ''.XXXXXX'') s of
           (None, s1) \<Rightarrow> ((- 1, tmpname0), s1)
         | (Some localtmp, s1) \<Rightarrow>
             (case sys_umask 63 s1 of
                (old_mode, s2) \<Rightarrow>
                  (case mkstemp_cloexec cfg localtmp s2 of
                     (fd, localtmp1, s3) \<Rightarrow>
                       (case sys_umask old_mode s3 of
                          (_, s4) \<Rightarrow>
                            if fd = - 1 then ((fd, None), s4)
                            else ((fd, Some localtmp1), s4)))))"


section \<open>dup_fd_cloexec\<close>

text \<open>
  \<^verbatim>\<open>int dup_fd_cloexec(int oldfd, int lowfd)\<close>. The \<^verbatim>\<open>unwind\<close> label saves \<open>errno\<close>,
  closes the duplicate, restores \<open>errno\<close> and returns \<open>-1\<close>.
\<close>

definition dup_unwind :: "int \<Rightarrow> os \<Rightarrow> int \<times> os" where
  "dup_unwind fd s =
     (let errno_save = errno s;
          (_, s1) = sys_close fd s
      in (- 1, s1\<lparr>errno := errno_save\<rparr>))"

definition dup_fallback :: "int \<Rightarrow> os \<Rightarrow> int \<times> os" where
  "dup_fallback oldfd s =
     (case sys_dup oldfd s of
        (fd, s1) \<Rightarrow>
          if fd < 0 then (fd, s1)
          else
            (case sys_fcntl_getfd fd s1 of
               (flags, s2) \<Rightarrow>
                 if flags < 0 then dup_unwind fd s2
                 else
                   (case sys_fcntl_setfd fd (flags OR FD_CLOEXEC) s2 of
                      (r, s3) \<Rightarrow>
                        if r < 0 then dup_unwind fd s3
                        else (fd, s3))))"

definition dup_fd_cloexec :: "config \<Rightarrow> int \<Rightarrow> int \<Rightarrow> os \<Rightarrow> int \<times> os" where
  "dup_fd_cloexec cfg oldfd lowfd s =
     (if HAVE_F_DUPFD_CLOEXEC cfg then
        (case sys_fcntl_dupfd_cloexec oldfd lowfd s of
           (fd, s1) \<Rightarrow>
             if fd \<ge> 0 then (fd, s1)
             else dup_fallback oldfd s1)
      else dup_fallback oldfd s)"

section \<open>get_fd_tabsize, in_set and close_all_fds\<close>

text \<open>\<^verbatim>\<open>int get_fd_tabsize(void)\<close>: the size of the descriptor table.\<close>

definition get_fd_tabsize :: "os \<Rightarrow> int" where
  "get_fd_tabsize s = nofile s"

text \<open>
  \<^verbatim>\<open>in_set(x, set, setsz)\<close>: the array and its length are one list; the loop returns
  \<open>1\<close> at the first equal element and \<open>0\<close> after the last.
\<close>

fun in_set :: "int \<Rightarrow> int list \<Rightarrow> int" where
  "in_set x [] = 0"
| "in_set x (y # ys) = (if y = x then 1 else in_set x ys)"

subsection \<open>The C library's strtol, base 10\<close>

text \<open>
  \<^verbatim>\<open>strtol(nptr, &end, 10)\<close> skips leading white space, takes an optional sign and
  then the longest run of decimal digits. With no digit it returns \<open>0\<close> and sets
  \<open>end\<close> to \<open>nptr\<close>; a value outside \<^verbatim>\<open>long\<close> is clamped and sets \<open>errno\<close> to \<^verbatim>\<open>ERANGE\<close>.
  \<open>end\<close> is an index into the string; \<^verbatim>\<open>long\<close> has 64 bits and \<^verbatim>\<open>int\<close> 32.
\<close>

definition isspace :: "char \<Rightarrow> bool" where
  "isspace c = (c \<in> set [CHR '' '', CHR 0x09, CHR 0x0A, CHR 0x0B, CHR 0x0C, CHR 0x0D])"

definition isdigit :: "char \<Rightarrow> bool" where
  "isdigit c = (c \<in> set ''0123456789'')"

definition digit_val :: "char \<Rightarrow> int" where
  "digit_val c = int (of_char c) - 48"

definition dec_value :: "string \<Rightarrow> int" where
  "dec_value ds = foldl (\<lambda>a c. 10 * a + digit_val c) 0 ds"

definition LONG_MAX :: int where "LONG_MAX = 2 ^ 63 - 1"
definition LONG_MIN :: int where "LONG_MIN = - (2 ^ 63)"

definition strtol :: "string \<Rightarrow> os \<Rightarrow> int \<times> nat \<times> os" where
  "strtol nptr s =
     (let ws = takeWhile isspace nptr;
          r1 = dropWhile isspace nptr;
          neg = (case r1 of [] \<Rightarrow> False | c # _ \<Rightarrow> c = CHR ''-'');
          sgn = (case r1 of [] \<Rightarrow> False | c # _ \<Rightarrow> c = CHR ''-'' \<or> c = CHR ''+'');
          r2 = (if sgn then tl r1 else r1);
          ds = takeWhile isdigit r2;
          v = (if neg then - dec_value ds else dec_value ds);
          endp = length ws + (if sgn then 1 else 0) + length ds
      in if ds = [] then (0, 0, s)
         else if LONG_MAX < v then (LONG_MAX, endp, s\<lparr>errno := ERANGE\<rparr>)
         else if v < LONG_MIN then (LONG_MIN, endp, s\<lparr>errno := ERANGE\<rparr>)
         else (v, endp, s))"

text \<open>The conversion of the \<^verbatim>\<open>long\<close> result to \<^verbatim>\<open>int fd\<close> keeps the low 32 bits.\<close>

definition long_to_int :: "int \<Rightarrow> int" where
  "long_to_int v = (v + 2 ^ 31) mod 2 ^ 32 - 2 ^ 31"

subsection \<open>The directory stream\<close>

text \<open>
  \<^verbatim>\<open>opendir(_PATH_PROC_FDDIR)\<close> takes the lowest free descriptor for the stream;
  \<^verbatim>\<open>dirfd\<close> is that descriptor and \<^verbatim>\<open>xreaddir\<close> yields the entry names of \<open>procfd\<close>
  in order. \<^verbatim>\<open>closedir\<close> closes the stream's descriptor.
\<close>

definition sys_opendir :: "os \<Rightarrow> (int \<times> string list) option \<times> os" where
  "sys_opendir s0 =
     (case next_fault s0 of
        (Some f, s) \<Rightarrow> (None, s\<lparr>errno := fault_errno f\<rparr>)
      | (None, s) \<Rightarrow>
          (case procfd s of
             None \<Rightarrow> (None, s\<lparr>errno := ENOENT\<rparr>)
           | Some entries \<Rightarrow>
               (case lowest_free s 0 of
                  None \<Rightarrow> (None, s\<lparr>errno := EMFILE\<rparr>)
                | Some fd \<Rightarrow>
                    (Some (fd, entries), s\<lparr>fdtab := (fdtab s)(fd \<mapsto> FD_CLOEXEC)\<rparr>))))"

definition sys_closedir :: "int \<Rightarrow> os \<Rightarrow> int \<times> os" where
  "sys_closedir dfd s = sys_close dfd s"

subsection \<open>close_all_fds\<close>

text \<open>
  One pass of the \<^verbatim>\<open>while ((d = xreaddir(dir)))\<close> body for the entry \<open>d_name\<close>; \<open>dfd\<close> is
  \<^verbatim>\<open>dirfd(dir)\<close>. \<open>end\<close> never is a null pointer, so the test \<^verbatim>\<open>!end\<close> is false; \<^verbatim>\<open>*end\<close>
  is non-zero exactly when \<open>end\<close> is before the end of the name.
\<close>

definition sweep_entry :: "int list \<Rightarrow> int \<Rightarrow> string \<Rightarrow> os \<Rightarrow> os" where
  "sweep_entry exclude dfd d_name s =
     (case strtol d_name (s\<lparr>errno := 0\<rparr>) of
        (v, endp, s1) \<Rightarrow>
          (let fd = long_to_int v
           in if errno s1 \<noteq> 0 \<or> endp = 0 \<or> endp < length d_name then s1
              else if dfd = fd then s1
              else if in_set fd exclude \<noteq> 0 then s1
              else snd (sys_close fd s1)))"

fun sweep_entries :: "int list \<Rightarrow> int \<Rightarrow> string list \<Rightarrow> os \<Rightarrow> os" where
  "sweep_entries exclude dfd [] s = s"
| "sweep_entries exclude dfd (d_name # rest) s =
     sweep_entries exclude dfd rest (sweep_entry exclude dfd d_name s)"

text \<open>The fallback \<^verbatim>\<open>for (fd = 0; fd < tbsz; fd++)\<close>.\<close>

function sweep_range :: "int list \<Rightarrow> int \<Rightarrow> int \<Rightarrow> os \<Rightarrow> os" where
  "sweep_range exclude fd tbsz s =
     (if fd < tbsz then
        sweep_range exclude (fd + 1) tbsz
          (if in_set fd exclude = 0 then snd (sys_close fd s) else s)
      else s)"
  by pat_completeness auto
termination
  by (relation "measure (\<lambda>(exclude, fd, tbsz, s). nat (tbsz - fd))") auto

declare sweep_range.simps [simp del]

definition close_all_fds :: "int list \<Rightarrow> os \<Rightarrow> os" where
  "close_all_fds exclude s =
     (case sys_opendir s of
        (Some (dfd, entries), s1) \<Rightarrow>
          snd (sys_closedir dfd (sweep_entries exclude dfd entries s1))
      | (None, s1) \<Rightarrow> sweep_range exclude 0 (get_fd_tabsize s1) s1)"

section \<open>mkdir_p\<close>

text \<open>
  \<^verbatim>\<open>int mkdir_p(const char *path, mode_t mode)\<close>. The copy \<open>dir\<close> of the path is a
  buffer and \<open>p\<close> an index into it. \<^verbatim>\<open>strchr(p, '/')\<close> is the index \<open>e\<close> of the next slash;
  while \<^verbatim>\<open>*e\<close> is overwritten with the terminator the buffer reads as \<open>take e dir\<close>,
  and \<^verbatim>\<open>*p\<close> is then non-zero exactly when \<open>e\<close> is not \<open>p\<close>. A null path is \<open>None\<close>.
\<close>

definition strchr_slash :: "string \<Rightarrow> nat \<Rightarrow> nat option" where
  "strchr_slash dir p = find (\<lambda>i. dir ! i = CHR ''/'') [p..<length dir]"

function mkdir_loop :: "string \<Rightarrow> int \<Rightarrow> nat \<Rightarrow> int \<Rightarrow> os \<Rightarrow> int \<times> os" where
  "mkdir_loop dir mode p rc s =
     (if p < length dir then
        (case strchr_slash dir p of
           None \<Rightarrow>
             (case sys_mkdir dir mode s of
                (r, s1) \<Rightarrow>
                  if r \<noteq> 0 \<and> errno s1 \<noteq> EEXIST then (r, s1)
                  else (0, s1))
         | Some e \<Rightarrow>
             if e \<noteq> p then
               (case sys_mkdir (take e dir) mode s of
                  (r, s1) \<Rightarrow>
                    if r \<noteq> 0 \<and> errno s1 \<noteq> EEXIST then (r, s1)
                    else mkdir_loop dir mode (Suc e) 0 s1)
             else mkdir_loop dir mode (Suc e) rc s)
      else (rc, s))"
  by pat_completeness auto
termination
  by (relation "measure (\<lambda>(dir, mode, p, rc, s). length dir - p)")
     (auto simp: strchr_slash_def find_Some_iff)

declare mkdir_loop.simps [simp del]

definition mkdir_p :: "string option \<Rightarrow> int \<Rightarrow> os \<Rightarrow> int \<times> os" where
  "mkdir_p path mode s =
     (case path of
        None \<Rightarrow> (- EINVAL, s)
      | Some [] \<Rightarrow> (- EINVAL, s)
      | Some (c # cs) \<Rightarrow>
          (case sys_alloc (c # cs) s of
             (None, s1) \<Rightarrow> (- ENOMEM, s1)
           | (Some dir, s1) \<Rightarrow>
               mkdir_loop dir mode (if c = CHR ''/'' then 1 else 0) 0 s1))"

section \<open>copy_file_simple and ul_copy_file\<close>

subsection \<open>The two descriptors\<close>

text \<open>
  The copy functions use two descriptors only, through \<^verbatim>\<open>read\<close>, \<^verbatim>\<open>write\<close>, \<^verbatim>\<open>sendfile\<close>
  and \<^verbatim>\<open>fstat\<close>. Their state is \<open>io\<close>: the bytes of the source file with the read
  offset of \<^verbatim>\<open>from\<close>, and the bytes \<^verbatim>\<open>to\<close> has received. The two descriptors name
  different files.

  How much a call transfers is the kernel's choice. A plan gives, for the n-th call
  of each kind, either a failure or a bound on the bytes moved: \<^verbatim>\<open>read\<close> and \<^verbatim>\<open>sendfile\<close>
  move at least one byte while the source has any (they return \<open>0\<close> only at the end of
  the file), \<^verbatim>\<open>write\<close> may accept any part of the request, also none of it.
  \<open>st_ok\<close>, \<open>st_isreg\<close> and \<open>st_size\<close> are what \<^verbatim>\<open>fstat(from)\<close> reports; the size is
  what was observed, not necessarily what is left to read.
\<close>

datatype xfer = Err | Upto nat

record io =
  src :: string
  pos :: nat
  dst :: string
  rd_plan :: "nat \<Rightarrow> xfer"
  wr_plan :: "nat \<Rightarrow> xfer"
  sf_plan :: "nat \<Rightarrow> xfer"
  rd_calls :: nat
  wr_calls :: nat
  sf_calls :: nat
  st_ok :: bool
  st_isreg :: bool
  st_size :: nat

text \<open>\<^verbatim>\<open>read(from, buf, count)\<close>: the return value, the bytes put into \<open>buf\<close>, the state.\<close>

definition sys_read :: "nat \<Rightarrow> io \<Rightarrow> int \<times> string \<times> io" where
  "sys_read count s =
     (case rd_plan s (rd_calls s) of
        Err \<Rightarrow> (- 1, [], s\<lparr>rd_calls := Suc (rd_calls s)\<rparr>)
      | Upto n \<Rightarrow>
          (let m = min count (min (length (src s) - pos s) (max 1 n))
           in (int m, take m (drop (pos s) (src s)),
               s\<lparr>pos := pos s + m, rd_calls := Suc (rd_calls s)\<rparr>)))"

text \<open>\<^verbatim>\<open>write(to, buf, count)\<close>, where \<open>buf\<close> is the data from the pointer passed on.\<close>

definition sys_write :: "string \<Rightarrow> int \<Rightarrow> io \<Rightarrow> int \<times> io" where
  "sys_write buf count s =
     (case wr_plan s (wr_calls s) of
        Err \<Rightarrow> (- 1, s\<lparr>wr_calls := Suc (wr_calls s)\<rparr>)
      | Upto n \<Rightarrow>
          (let m = min (nat count) n
           in (int m, s\<lparr>dst := dst s @ take m buf, wr_calls := Suc (wr_calls s)\<rparr>)))"

text \<open>\<^verbatim>\<open>sendfile(to, from, NULL, count)\<close>: moves bytes at the read offset of \<^verbatim>\<open>from\<close>.\<close>

definition sys_sendfile :: "int \<Rightarrow> io \<Rightarrow> int \<times> io" where
  "sys_sendfile count s =
     (case sf_plan s (sf_calls s) of
        Err \<Rightarrow> (- 1, s\<lparr>sf_calls := Suc (sf_calls s)\<rparr>)
      | Upto n \<Rightarrow>
          (let m = min (nat count) (min (length (src s) - pos s) (max 1 n))
           in (int m, s\<lparr>dst := dst s @ take m (drop (pos s) (src s)),
                         pos := pos s + m, sf_calls := Suc (sf_calls s)\<rparr>)))"

subsection \<open>copy_file_simple\<close>

text \<open>
  The inner \<^verbatim>\<open>for (off = 0; nr > 0; nr -= nw, off += nw)\<close> loop, entered with the
  chunk \<open>buf\<close> just read: \<open>Some (False, s)\<close> is the \<^verbatim>\<open>return -2\<close>, \<open>Some (True, s)\<close> the
  normal end of the loop. Neither loop has a bound in the source, so both are
  partial functions: \<open>None\<close> is a run that never returns.
\<close>

partial_function (option) write_chunk :: "string \<Rightarrow> int \<Rightarrow> int \<Rightarrow> io \<Rightarrow> (bool \<times> io) option" where
  "write_chunk buf off nr s =
     (if nr > 0 then
        (case sys_write (drop (nat off) buf) nr s of
           (nw, s1) \<Rightarrow>
             if nw < 0 then Some (False, s1)
             else write_chunk buf (off + nw) (nr - nw) s1)
      else Some (True, s))"

partial_function (option) copy_file_simple :: "io \<Rightarrow> (int \<times> io) option" where
  "copy_file_simple s =
     (case sys_read (8 * 1024) s of
        (nr, buf, s1) \<Rightarrow>
          if nr > 0 then
            Option.bind (write_chunk buf 0 nr s1)
              (\<lambda>(ok, s2). if ok then copy_file_simple s2 else Some (- 2, s2))
          else if nr < 0 then Some (- 1, s1)
          else Some (0, s1))"

subsection \<open>ul_copy_file\<close>

text \<open>
  The second \<^verbatim>\<open>sendfile\<close> loop, \<^verbatim>\<open>while ((nw = sendfile(to, from, NULL, 1024*1024)) != 0)\<close>,
  and the first, \<^verbatim>\<open>for (left = st.st_size; left != 0; left -= nw)\<close>, which falls through
  to the second.
\<close>

function drain_loop :: "io \<Rightarrow> (int \<times> io) option" where
  "drain_loop s =
     (case sys_sendfile (1024 * 1024) s of
        (nw, s1) \<Rightarrow>
          if nw \<noteq> 0 then
            (if nw < 0 then copy_file_simple s1 else drain_loop s1)
          else Some (0, s1))"
  by pat_completeness auto
termination
  by (relation "measure (\<lambda>s. length (src s) - pos s)")
     (auto simp: sys_sendfile_def Let_def split: xfer.splits)

function sendfile_loop :: "int \<Rightarrow> io \<Rightarrow> (int \<times> io) option" where
  "sendfile_loop left s =
     (if left \<noteq> 0 then
        (case sys_sendfile left s of
           (nw, s1) \<Rightarrow>
             if nw < 0 then copy_file_simple s1
             else if nw = 0 then Some (0, s1)
             else sendfile_loop (left - nw) s1)
      else drain_loop s)"
  by pat_completeness auto
termination
  by (relation "measure (\<lambda>(left, s). length (src s) - pos s)")
     (auto simp: sys_sendfile_def Let_def split: xfer.splits)

declare drain_loop.simps [simp del]
declare sendfile_loop.simps [simp del]

definition ul_copy_file :: "config \<Rightarrow> io \<Rightarrow> (int \<times> io) option" where
  "ul_copy_file cfg s =
     (if HAVE_SENDFILE cfg then
        (if \<not> st_ok s then Some (- 1, s)
         else if \<not> st_isreg s then copy_file_simple s
         else sendfile_loop (int (st_size s)) s)
      else copy_file_simple s)"

section \<open>Predicates of the statements\<close>

text \<open>
  \<open>only_adds_dirs s s'\<close>: every entry of the file tree is in \<open>s'\<close> what it was in \<open>s\<close>,
  except that directories may have appeared where there was nothing.
\<close>

definition only_adds_dirs :: "os \<Rightarrow> os \<Rightarrow> bool" where
  "only_adds_dirs s s' =
     (\<forall>q. files s' q = files s q \<or> (files s q = None \<and> (\<exists>m. files s' q = Some (Dir m))))"

text \<open>\<open>root_dir s\<close>: the file tree has its root directory.\<close>

definition root_dir :: "os \<Rightarrow> bool" where
  "root_dir s = (case files s [] of Some (Dir _) \<Rightarrow> True | _ \<Rightarrow> False)"

text \<open>\<open>fault_count s\<close>: the number of failures the environment still holds for the calls to come.\<close>

definition fault_count :: "os \<Rightarrow> nat" where
  "fault_count s = length (filter (\<lambda>f. f \<noteq> None) (faults s))"

text \<open>
  \<open>without_trailing_slashes p\<close>: the path \<open>p\<close> with the slashes at its end removed (the
  root for a path of slashes only).
\<close>

definition without_trailing_slashes :: "string \<Rightarrow> string" where
  "without_trailing_slashes p =
     (let q = rev (dropWhile (\<lambda>c. c = CHR ''/'') (rev p))
      in if q = [] then ''/'' else q)"

text \<open>
  The algorithm of \<^verbatim>\<open>mkdir_p\<close> in the words of its specification: walk the path left to
  right, splitting at each slash; after each segment attempt to create the directory
  accumulated so far; already-exists is not an error and processing continues; any
  other failure aborts at once and is reported. A segment ends at \<open>e\<close> when the
  character before \<open>e\<close> is not a slash and the string ends at \<open>e\<close> or has a slash there;
  \<open>dir_prefixes path\<close> are the directories accumulated at the segment ends, in order,
  and \<open>create_each\<close> attempts them in turn.
\<close>

definition segment_end :: "string \<Rightarrow> nat \<Rightarrow> bool" where
  "segment_end path e =
     (0 < e \<and> path ! (e - 1) \<noteq> CHR ''/'' \<and> (e = length path \<or> path ! e = CHR ''/''))"

definition dir_prefixes :: "string \<Rightarrow> string list" where
  "dir_prefixes path =
     map (\<lambda>e. take e path) (filter (segment_end path) [1..<Suc (length path)])"

fun create_each :: "string list \<Rightarrow> int \<Rightarrow> os \<Rightarrow> int \<times> os" where
  "create_each [] mode s = (0, s)"
| "create_each (d # ds) mode s =
     (case sys_mkdir d mode s of
        (r, s1) \<Rightarrow>
          if r \<noteq> 0 \<and> errno s1 \<noteq> EEXIST then (r, s1)
          else create_each ds mode s1)"

text \<open>
  \<open>digit_string\<close>: a non-empty string of decimal digits. \<open>strtol_accepts name v\<close>: the
  whole of \<open>name\<close> is white space, then an optional sign, then one or more decimal
  digits, and the signed decimal value \<open>v\<close> is in the range of \<^verbatim>\<open>long\<close>.
  \<open>entry_target exclude dfd name fd\<close>: the entry \<open>name\<close> makes the sweep close \<open>fd\<close>.
\<close>

definition digit_string :: "string \<Rightarrow> bool" where
  "digit_string name = (name \<noteq> [] \<and> list_all isdigit name)"

definition strtol_accepts :: "string \<Rightarrow> int \<Rightarrow> bool" where
  "strtol_accepts name v =
     (\<exists>ws sg ds. name = ws @ sg @ ds \<and> list_all isspace ws \<and>
        (sg = [] \<or> sg = ''+'' \<or> sg = ''-'') \<and> ds \<noteq> [] \<and> list_all isdigit ds \<and>
        v = (if sg = ''-'' then - dec_value ds else dec_value ds) \<and>
        LONG_MIN \<le> v \<and> v \<le> LONG_MAX)"

definition entry_target :: "int list \<Rightarrow> int \<Rightarrow> string \<Rightarrow> int \<Rightarrow> bool" where
  "entry_target exclude dfd name fd =
     ((\<exists>v. strtol_accepts name v \<and> long_to_int v = fd) \<and> fd \<noteq> dfd \<and> fd \<notin> set exclude)"

text \<open>
  \<open>io_frame s s'\<close>: the source file, the three plans and the result of \<^verbatim>\<open>fstat\<close> are in
  \<open>s'\<close> what they were in \<open>s\<close>.
\<close>

definition io_frame :: "io \<Rightarrow> io \<Rightarrow> bool" where
  "io_frame s s' =
     (src s' = src s \<and> rd_plan s' = rd_plan s \<and> wr_plan s' = wr_plan s \<and>
      sf_plan s' = sf_plan s \<and> st_ok s' = st_ok s \<and> st_isreg s' = st_isreg s \<and>
      st_size s' = st_size s)"

section \<open>Configurations and states used in the examples\<close>

text \<open>
  \<open>linux\<close> has every optional primitive, \<open>portable\<close> none. \<open>tmp_state\<close> is a process
  with the three standard descriptors, a root directory and \<^verbatim>\<open>/tmp\<close>, the mask \<^verbatim>\<open>022\<close>
  and one candidate suffix for \<^verbatim>\<open>mkstemp\<close>, which asks for the mode \<^verbatim>\<open>0600\<close>.
  \<open>dup_state\<close> has a table of eight descriptors of which \<open>6\<close> and \<open>7\<close> are in use.
\<close>

definition linux :: config where
  "linux = \<lparr>HAVE_MKOSTEMP = True, HAVE_F_DUPFD_CLOEXEC = True, HAVE_SENDFILE = True\<rparr>"

definition portable :: config where
  "portable = \<lparr>HAVE_MKOSTEMP = False, HAVE_F_DUPFD_CLOEXEC = False, HAVE_SENDFILE = False\<rparr>"

definition tmp_state :: os where
  "tmp_state =
     \<lparr>fdtab = [0 \<mapsto> 0, 1 \<mapsto> 0, 2 \<mapsto> 0], nofile = 16,
      files = [[] \<mapsto> Dir 493, [''tmp''] \<mapsto> Dir 1023], cwd = [], umask = 18, errno = 0,
      faults = [], suffixes = [''a1B2c3''], tmp_mode = 384, env_TMPDIR = None,
      procfd = None\<rparr>"

definition dup_state :: os where
  "dup_state =
     \<lparr>fdtab = [0 \<mapsto> 0, 1 \<mapsto> 0, 2 \<mapsto> 0, 6 \<mapsto> 0, 7 \<mapsto> 0], nofile = 8,
      files = [[] \<mapsto> Dir 493], cwd = [], umask = 18, errno = 0, faults = [],
      suffixes = [], tmp_mode = 384, env_TMPDIR = None, procfd = None\<rparr>"

text \<open>\<open>afile_state\<close> has a regular file \<^verbatim>\<open>/a\<close> with the mode \<^verbatim>\<open>0644\<close>.\<close>

definition afile_state :: os where
  "afile_state =
     \<lparr>fdtab = [0 \<mapsto> 0, 1 \<mapsto> 0, 2 \<mapsto> 0], nofile = 16,
      files = [[] \<mapsto> Dir 493, [''a''] \<mapsto> Reg 420], cwd = [], umask = 18, errno = 0,
      faults = [], suffixes = [], tmp_mode = 384, env_TMPDIR = None, procfd = None\<rparr>"

text \<open>
  \<open>sweep_state\<close> has the descriptors \<open>0, 1, 2, 5, 6, 7\<close> open; its pseudo-directory lists
  them and \<open>3\<close>, the descriptor the directory stream itself will get.
\<close>

definition sweep_state :: os where
  "sweep_state =
     \<lparr>fdtab = [0 \<mapsto> 0, 1 \<mapsto> 0, 2 \<mapsto> 0, 5 \<mapsto> 0, 6 \<mapsto> 0, 7 \<mapsto> 0], nofile = 16,
      files = [[] \<mapsto> Dir 493], cwd = [], umask = 18, errno = 0, faults = [],
      suffixes = [], tmp_mode = 384, env_TMPDIR = None,
      procfd = Some [''0'', ''1'', ''2'', ''3'', ''5'', ''6'', ''7'']\<rparr>"

text \<open>
  \<open>copy_state\<close> copies the eleven bytes \<^verbatim>\<open>hello world\<close>: the first \<^verbatim>\<open>sendfile\<close> moves five
  bytes and the second fails; reads return at most four bytes and writes accept at most
  three. \<open>shrunk_state\<close> is a file of three bytes whose \<^verbatim>\<open>fstat\<close> size still says ten.
\<close>

definition copy_state :: io where
  "copy_state =
     \<lparr>src = ''hello world'', pos = 0, dst = [],
      rd_plan = (\<lambda>k. Upto 4), wr_plan = (\<lambda>k. Upto 3),
      sf_plan = (\<lambda>k. if k = 0 then Upto 5 else Err),
      rd_calls = 0, wr_calls = 0, sf_calls = 0,
      st_ok = True, st_isreg = True, st_size = 11\<rparr>"

definition shrunk_state :: io where
  "shrunk_state =
     \<lparr>src = ''abc'', pos = 0, dst = [],
      rd_plan = (\<lambda>k. Upto 4), wr_plan = (\<lambda>k. Upto 3), sf_plan = (\<lambda>k. Upto 100),
      rd_calls = 0, wr_calls = 0, sf_calls = 0,
      st_ok = True, st_isreg = True, st_size = 10\<rparr>"

section \<open>Facts about the environment\<close>


lemmas errno_defs =
  EPERM_def ENOENT_def EIO_def EBADF_def ENOMEM_def EACCES_def EEXIST_def ENOTDIR_def
  EISDIR_def EINVAL_def EMFILE_def ENOSPC_def ERANGE_def EINTR_def ENAMETOOLONG_def

lemmas flag_defs = FD_CLOEXEC_def O_RDWR_def O_CREAT_def O_EXCL_def O_CLOEXEC_def


lemma walk_mono:
  "walk t cur cs = Inr q \<Longrightarrow> t \<subseteq>\<^sub>m t' \<Longrightarrow> walk t' cur cs = Inr q"
proof (induction cs arbitrary: cur)
  case Nil
  then show ?case by simp
next
  case (Cons c cs)
  from Cons.prems(1) obtain m where d: "t cur = Some (Dir m)"
    by (auto split: option.splits node.splits)
  with Cons.prems(2) have d': "t' cur = Some (Dir m)"
    by (auto simp: map_le_def dom_def)
  from Cons.prems(1) d Cons.IH[OF _ Cons.prems(2)] show ?case
    by (auto simp: d' split: if_splits)
qed

lemma namei_frame:
  "files s1 = files s \<Longrightarrow> cwd s1 = cwd s \<Longrightarrow> namei s1 p = namei s p"
  by (simp add: namei_def start_dir_def split: list.splits)

lemma namei_mono:
  assumes "namei s p = Inr q" and "files s \<subseteq>\<^sub>m files s1" and "cwd s1 = cwd s"
  shows "namei s1 p = Inr q"
proof -
  from assms(1) have ne: "p \<noteq> []" "\<not> PATH_MAX \<le> length p"
    and w: "walk (files s) (start_dir s p) (components p) = Inr q"
    by (auto simp: namei_def split: if_splits)
  from assms(3) have "start_dir s1 p = start_dir s p"
    by (simp add: start_dir_def split: list.splits)
  with walk_mono[OF w assms(2)] ne show ?thesis
    by (simp add: namei_def)
qed

lemma namei_faults: "namei (s\<lparr>faults := x\<rparr>) p = namei s p"
  by (rule namei_frame) simp_all

lemma next_fault_frame:
  "next_fault s = (f, s1) \<Longrightarrow>
     files s1 = files s \<and> fdtab s1 = fdtab s \<and> umask s1 = umask s \<and> cwd s1 = cwd s \<and>
     errno s1 = errno s \<and> nofile s1 = nofile s \<and> suffixes s1 = suffixes s \<and>
     tmp_mode s1 = tmp_mode s \<and> procfd s1 = procfd s"
  by (auto simp: next_fault_def split: list.splits)

lemma next_fault_count:
  "next_fault s = (f, s1) \<Longrightarrow>
     fault_count s1 \<le> fault_count s \<and> (f \<noteq> None \<longrightarrow> fault_count s1 < fault_count s)"
  by (auto simp: next_fault_def fault_count_def split: list.splits)

lemma next_fault_none: "fault_count s = 0 \<Longrightarrow> fst (next_fault s) = None"
  by (auto simp: next_fault_def fault_count_def split: list.splits if_splits)

lemma lowest_free_Some:
  "lowest_free s lo = Some fd \<Longrightarrow> lo \<le> fd \<and> fd < nofile s \<and> fdtab s fd = None"
  by (auto simp: lowest_free_def find_Some_iff)

lemma open_excl_fail:
  "open_excl p mode fl s = (fd, s1) \<Longrightarrow> fd < 0 \<Longrightarrow>
     files s1 = files s \<and> fdtab s1 = fdtab s \<and> umask s1 = umask s \<and> cwd s1 = cwd s \<and>
     tmp_mode s1 = tmp_mode s \<and> nofile s1 = nofile s \<and> faults s1 = faults s \<and> fd = - 1"
  by (auto simp: open_excl_def fail_def split: option.splits sum.splits if_splits
      dest: lowest_free_Some)

lemma open_excl_ok:
  "open_excl p mode fl s = (fd, s1) \<Longrightarrow> 0 \<le> fd \<Longrightarrow>
     \<exists>q. namei s p = Inr q \<and> files s q = None \<and> last_norm p \<and>
       files s1 = (files s)(q \<mapsto> Reg (mode AND NOT (umask s) AND 511)) \<and>
       fdtab s fd = None \<and> fdtab s1 = (fdtab s)(fd \<mapsto> fl) \<and>
       umask s1 = umask s \<and> cwd s1 = cwd s \<and> errno s1 = errno s \<and> faults s1 = faults s"
  by (auto simp: open_excl_def fail_def split: option.splits sum.splits if_splits
      dest: lowest_free_Some)

lemma try_suffixes_faults:
  "try_suffixes pre fl cs s = (fd, t1, s1) \<Longrightarrow> faults s1 = faults s"
proof (induction cs arbitrary: s)
  case Nil
  then show ?case by auto
next
  case (Cons c cs)
  obtain fd0 s0 where o: "open_excl (pre @ c) (tmp_mode s) fl s = (fd0, s0)"
    by (cases "open_excl (pre @ c) (tmp_mode s) fl s")
  have f: "faults s0 = faults s"
    using open_excl_fail[OF o] open_excl_ok[OF o] by (cases "fd0 < 0") auto
  show ?case
  proof (cases "fd0 < 0 \<and> errno s0 = EEXIST")
    case True
    with Cons.prems o have "try_suffixes pre fl cs s0 = (fd, t1, s1)" by simp
    from Cons.IH[OF this] f show ?thesis by simp
  next
    case False
    with Cons.prems o have "s1 = s0\<lparr>suffixes := cs\<rparr>" by auto
    with f show ?thesis by simp
  qed
qed

lemma try_suffixes_fail:
  "try_suffixes pre fl cs s = (fd, t1, s1) \<Longrightarrow> fd < 0 \<Longrightarrow>
     files s1 = files s \<and> fdtab s1 = fdtab s \<and> umask s1 = umask s \<and> cwd s1 = cwd s \<and> fd = - 1"
proof (induction cs arbitrary: s)
  case Nil
  then show ?case by auto
next
  case (Cons c cs)
  obtain fd0 s0 where o: "open_excl (pre @ c) (tmp_mode s) fl s = (fd0, s0)"
    by (cases "open_excl (pre @ c) (tmp_mode s) fl s")
  show ?case
  proof (cases "fd0 < 0 \<and> errno s0 = EEXIST")
    case True
    with Cons.prems o have "try_suffixes pre fl cs s0 = (fd, t1, s1)" by simp
    from Cons.IH[OF this Cons.prems(2)] open_excl_fail[OF o] True show ?thesis by simp
  next
    case False
    with Cons.prems o have e: "fd0 = fd" "s1 = s0\<lparr>suffixes := cs\<rparr>" by auto
    with open_excl_fail[OF o] Cons.prems(2) show ?thesis by simp
  qed
qed

lemma try_suffixes_ok:
  "try_suffixes pre fl cs s = (fd, t1, s1) \<Longrightarrow> 0 \<le> fd \<Longrightarrow>
     \<exists>q. namei s t1 = Inr q \<and> files s q = None \<and> last_norm t1 \<and>
       files s1 = (files s)(q \<mapsto> Reg (tmp_mode s AND NOT (umask s) AND 511)) \<and>
       fdtab s fd = None \<and> fdtab s1 = (fdtab s)(fd \<mapsto> fl) \<and>
       umask s1 = umask s \<and> cwd s1 = cwd s"
proof (induction cs arbitrary: s)
  case Nil
  then show ?case by auto
next
  case (Cons c cs)
  obtain fd0 s0 where o: "open_excl (pre @ c) (tmp_mode s) fl s = (fd0, s0)"
    by (cases "open_excl (pre @ c) (tmp_mode s) fl s")
  show ?case
  proof (cases "fd0 < 0 \<and> errno s0 = EEXIST")
    case True
    with Cons.prems o have t: "try_suffixes pre fl cs s0 = (fd, t1, s1)" by simp
    from True open_excl_fail[OF o] have fr: "files s0 = files s" "fdtab s0 = fdtab s"
      "umask s0 = umask s" "cwd s0 = cwd s" "tmp_mode s0 = tmp_mode s" by simp_all
    from Cons.IH[OF t Cons.prems(2)] show ?thesis
      by (simp add: fr namei_frame[OF fr(1) fr(4)])
  next
    case False
    with Cons.prems o have e: "fd0 = fd" "s1 = s0\<lparr>suffixes := cs\<rparr>" "t1 = pre @ c" by auto
    from open_excl_ok[OF o] Cons.prems(2) e show ?thesis by auto
  qed
qed

lemma sys_mkostemp_fail:
  "sys_mkostemp t fl s = (fd, t1, s1) \<Longrightarrow> fd < 0 \<Longrightarrow>
     files s1 = files s \<and> fdtab s1 = fdtab s \<and> umask s1 = umask s \<and> cwd s1 = cwd s \<and> fd = - 1"
  unfolding sys_mkostemp_def
  by (auto split: prod.splits option.splits if_splits
      dest!: next_fault_frame dest: try_suffixes_fail)

lemma sys_mkostemp_count:
  "sys_mkostemp t fl s = (fd, t1, s1) \<Longrightarrow> fault_count s1 \<le> fault_count s"
proof -
  assume a: "sys_mkostemp t fl s = (fd, t1, s1)"
  obtain f s0 where n: "next_fault s = (f, s0)" by (cases "next_fault s")
  note c = next_fault_count[OF n]
  show ?thesis
  proof (cases f)
    case (Some x)
    with a n c show ?thesis by (auto simp: sys_mkostemp_def fault_count_def)
  next
    case None
    show ?thesis
    proof (cases "length t < 6 \<or> drop (length t - 6) t \<noteq> ''XXXXXX''")
      case True
      with a n None c show ?thesis by (auto simp: sys_mkostemp_def fault_count_def)
    next
      case False
      with a n None have
        "try_suffixes (take (length t - 6) t)
           (if fl AND O_CLOEXEC = O_CLOEXEC then FD_CLOEXEC else 0) (suffixes s0) s0 = (fd, t1, s1)"
        by (auto simp: sys_mkostemp_def)
      from try_suffixes_faults[OF this] c show ?thesis by (simp add: fault_count_def)
    qed
  qed
qed

lemma sys_mkostemp_ok:
  "sys_mkostemp t fl s = (fd, t1, s1) \<Longrightarrow> 0 \<le> fd \<Longrightarrow>
     \<exists>q. namei s t1 = Inr q \<and> files s q = None \<and> last_norm t1 \<and>
       files s1 = (files s)(q \<mapsto> Reg (tmp_mode s AND NOT (umask s) AND 511)) \<and>
       fdtab s fd = None \<and>
       fdtab s1 = (fdtab s)(fd \<mapsto> (if fl AND O_CLOEXEC = O_CLOEXEC then FD_CLOEXEC else 0)) \<and>
       umask s1 = umask s \<and> cwd s1 = cwd s"
proof -
  assume a: "sys_mkostemp t fl s = (fd, t1, s1)" and b: "0 \<le> fd"
  obtain f s0 where n: "next_fault s = (f, s0)" by (cases "next_fault s")
  note fr = next_fault_frame[OF n]
  from a b n have
    "try_suffixes (take (length t - 6) t)
       (if fl AND O_CLOEXEC = O_CLOEXEC then FD_CLOEXEC else 0) (suffixes s0) s0 = (fd, t1, s1)"
    by (auto simp: sys_mkostemp_def split: option.splits if_splits)
  from try_suffixes_ok[OF this b] fr show ?thesis
    by (simp add: namei_frame[of s0 s])
qed

lemma getfd_frame:
  "sys_fcntl_getfd fd s = (r, s1) \<Longrightarrow>
     files s1 = files s \<and> fdtab s1 = fdtab s \<and> umask s1 = umask s \<and> cwd s1 = cwd s \<and>
     (0 \<le> r \<longrightarrow> fdtab s fd = Some r)"
  unfolding sys_fcntl_getfd_def fail_def
  by (auto split: prod.splits option.splits dest!: next_fault_frame)

lemma getfd_count:
  "sys_fcntl_getfd fd s = (r, s1) \<Longrightarrow>
     fault_count s1 \<le> fault_count s \<and>
     (r < 0 \<longrightarrow> fdtab s fd = Some 0 \<longrightarrow> fault_count s1 < fault_count s)"
proof -
  assume a: "sys_fcntl_getfd fd s = (r, s1)"
  obtain f s0 where n: "next_fault s = (f, s0)" by (cases "next_fault s")
  from a n next_fault_count[OF n] next_fault_frame[OF n] show ?thesis
    by (auto simp: sys_fcntl_getfd_def fail_def fault_count_def split: option.splits)
qed

lemma setfd_frame:
  "sys_fcntl_setfd fd arg s = (r, s1) \<Longrightarrow>
     files s1 = files s \<and> umask s1 = umask s \<and> cwd s1 = cwd s \<and>
     (r < 0 \<longrightarrow> fdtab s1 = fdtab s) \<and>
     (0 \<le> r \<longrightarrow> fdtab s1 = (fdtab s)(fd \<mapsto> arg AND FD_CLOEXEC))"
  unfolding sys_fcntl_setfd_def fail_def
  by (auto split: prod.splits option.splits dest!: next_fault_frame)

lemma setfd_count:
  "sys_fcntl_setfd fd arg s = (r, s1) \<Longrightarrow>
     fault_count s1 \<le> fault_count s \<and>
     (r < 0 \<longrightarrow> fdtab s fd \<noteq> None \<longrightarrow> fault_count s1 < fault_count s)"
proof -
  assume a: "sys_fcntl_setfd fd arg s = (r, s1)"
  obtain f s0 where n: "next_fault s = (f, s0)" by (cases "next_fault s")
  from a n next_fault_count[OF n] next_fault_frame[OF n] show ?thesis
    by (auto simp: sys_fcntl_setfd_def fail_def fault_count_def split: option.splits)
qed

lemma close_frame:
  "sys_close fd s = (r, s1) \<Longrightarrow>
     files s1 = files s \<and> umask s1 = umask s \<and> cwd s1 = cwd s \<and> nofile s1 = nofile s \<and>
     fdtab s1 = (fdtab s)(fd := None)"
  unfolding sys_close_def fail_def
  by (auto split: prod.splits option.splits dest!: next_fault_frame)

lemma unlink_frame:
  "sys_unlink p s = (r, s1) \<Longrightarrow>
     fdtab s1 = fdtab s \<and> umask s1 = umask s \<and> cwd s1 = cwd s \<and>
     (r \<noteq> 0 \<longrightarrow> files s1 = files s) \<and>
     (r = 0 \<longrightarrow> (\<exists>q. namei s p = Inr q \<and> files s1 = (files s)(q := None)))"
  unfolding sys_unlink_def fail_def next_fault_def
  by (auto simp: namei_faults split: list.splits option.splits sum.splits node.splits if_splits)

lemma unlink_created:
  assumes "fault_count s = 0" and "namei s p = Inr q" and "files s q = Some (Reg m)"
    and "\<not> trailing_slash p"
  shows "fst (sys_unlink p s) = 0"
proof -
  obtain f s0 where n: "next_fault s = (f, s0)" by (cases "next_fault s")
  from next_fault_none[OF assms(1)] n have f: "f = None" by simp
  from n have "namei s0 p = namei s p" "files s0 = files s"
    using next_fault_frame[OF n] by (simp_all add: namei_frame[of s0 s])
  with assms n f show ?thesis by (simp add: sys_unlink_def)
qed

lemma mkstemp_unwind_result:
  assumes "mkstemp_unwind p fd s = (r, s1)" and "sys_unlink p s = (ru, su)"
  shows "r = - 1 \<and> files s1 = files su \<and> fdtab s1 = (fdtab s)(fd := None) \<and>
         umask s1 = umask s \<and> cwd s1 = cwd s \<and> errno s1 = errno s"
proof -
  obtain rc sc where c: "sys_close fd su = (rc, sc)" by (cases "sys_close fd su")
  from assms have "r = - 1" "s1 = sc\<lparr>errno := errno s\<rparr>"
    by (auto simp: mkstemp_unwind_def c)
  with close_frame[OF c] unlink_frame[OF assms(2)] show ?thesis by simp
qed

lemma mode_no_group_other: "((m::int) AND NOT 63 AND 511) AND 63 = 0"
proof -
  have "(m AND NOT 63 AND 511) AND 63 = (m AND 511) AND (NOT 63 AND 63)"
    by (simp add: ac_simps)
  then show ?thesis by simp
qed

text \<open>The unwind path of the fallback, entered after a successful \<^verbatim>\<open>mkstemp\<close>.\<close>

lemma unwind_after_mkstemp:
  assumes ok: "namei s t1 = Inr q" "files s q = None" "last_norm t1"
      "files s0 = (files s)(q \<mapsto> Reg md)" "fdtab s fd = None"
      "fdtab s0 = (fdtab s)(fd \<mapsto> fl)" "umask s0 = umask s" "cwd s0 = cwd s"
    and fr: "files s2 = files s0" "fdtab s2 = fdtab s0" "umask s2 = umask s0" "cwd s2 = cwd s0"
    and u: "mkstemp_unwind t1 fd s2 = (r, s3)"
    and ul: "sys_unlink t1 s2 = (ru, su)"
  shows "r = - 1 \<and> fdtab s3 = fdtab s \<and> umask s3 = umask s \<and> cwd s3 = cwd s \<and>
         errno s3 = errno s2 \<and> namei s3 t1 = Inr q \<and>
         (ru = 0 \<longrightarrow> files s3 = files s) \<and> (ru \<noteq> 0 \<longrightarrow> files s3 = files s0) \<and>
         (fault_count s2 = 0 \<longrightarrow> ru = 0)"
proof -
  have le: "files s \<subseteq>\<^sub>m files s2"
    using ok(2,4) fr(1) by (auto simp: map_le_def)
  have n: "namei s2 t1 = Inr q"
    using namei_mono[OF ok(1) le] ok(8) fr(4) by simp
  have f: "files s2 q = Some (Reg md)"
    using ok(4) fr(1) by simp
  note w = mkstemp_unwind_result[OF u ul]
  note uf = unlink_frame[OF ul]
  have r: "r = - 1" "umask s3 = umask s" "cwd s3 = cwd s" "errno s3 = errno s2"
    using w ok fr by simp_all
  have t: "fdtab s3 = fdtab s"
    using w ok(5,6) fr(2) by (simp add: fun_upd_idem)
  have a: "files s3 = files s" if "ru = 0"
  proof -
    from uf that n have "files su = (files s2)(q := None)" by auto
    with w fr(1) ok(2,4) show ?thesis by (simp add: fun_upd_idem)
  qed
  have b: "files s3 = files s0" if "ru \<noteq> 0"
    using uf that w fr(1) by simp
  have c: "ru = 0" if "fault_count s2 = 0"
  proof -
    from ok(3) have "\<not> trailing_slash t1" by (simp add: last_norm_def)
    from unlink_created[OF that n f this] ul show ?thesis by simp
  qed
  have m: "namei s3 t1 = Inr q"
  proof (cases "ru = 0")
    case True
    with a r(3) ok(1) show ?thesis by (simp add: namei_frame[of s3 s])
  next
    case False
    with b r(3) fr(1,4) ok(8) have "files s3 = files s2" "cwd s3 = cwd s2" by simp_all
    from namei_frame[OF this] n show ?thesis by simp
  qed
  from r t a b c m show ?thesis by blast
qed

text \<open>
  A failing \<^verbatim>\<open>mkstemp_cloexec\<close> leaves the descriptor table as it was. The file tree is as it
  was, or holds the one regular file \<^verbatim>\<open>mkstemp\<close> created: that happens only in the fallback,
  and only when a second failure of the environment follows the first.
\<close>

lemma mkstemp_cloexec_fail:
  assumes "mkstemp_cloexec cfg t s = (fd, t1, s1)" and "fd < 0"
  shows "fdtab s1 = fdtab s \<and> umask s1 = umask s \<and> cwd s1 = cwd s \<and> fd = - 1 \<and>
         (files s1 = files s \<or> (\<exists>q m. files s q = None \<and> files s1 = (files s)(q \<mapsto> Reg m))) \<and>
         (HAVE_MKOSTEMP cfg \<longrightarrow> files s1 = files s) \<and>
         (fault_count s \<le> 1 \<longrightarrow> files s1 = files s)"
proof (cases "HAVE_MKOSTEMP cfg")
  case True
  with assms sys_mkostemp_fail show ?thesis
    by (simp add: mkstemp_cloexec_def)
next
  case False
  obtain fd0 t0 s0 where m: "sys_mkostemp t 0 s = (fd0, t0, s0)"
    by (cases "sys_mkostemp t 0 s")
  note mc = sys_mkostemp_count[OF m]
  show ?thesis
  proof (cases "fd0 < 0")
    case True
    with assms False m sys_mkostemp_fail[OF m] show ?thesis
      by (simp add: mkstemp_cloexec_def sys_mkstemp_def)
  next
    case nonneg: False
    then have "0 \<le> fd0" by simp
    from sys_mkostemp_ok[OF m this] obtain q where
      ok: "namei s t0 = Inr q" "files s q = None" "last_norm t0"
        "files s0 = (files s)(q \<mapsto> Reg (tmp_mode s AND NOT (umask s) AND 511))"
        "fdtab s fd0 = None"
        "fdtab s0 = (fdtab s)(fd0 \<mapsto> 0)"
        "umask s0 = umask s" "cwd s0 = cwd s"
      by (auto simp: flag_defs)
    obtain r2 s2 where g: "sys_fcntl_getfd fd0 s0 = (r2, s2)"
      by (cases "sys_fcntl_getfd fd0 s0")
    note gf = getfd_frame[OF g]
    note gc = getfd_count[OF g]
    show ?thesis
    proof (cases "r2 < 0")
      case True
      obtain ru su where u: "mkstemp_unwind t0 fd0 s2 = (ru, su)"
        by (cases "mkstemp_unwind t0 fd0 s2")
      obtain rl sl where ul: "sys_unlink t0 s2 = (rl, sl)"
        by (cases "sys_unlink t0 s2")
      from assms(1) False m nonneg g True u have e: "fd = ru" "s1 = su"
        by (simp_all add: mkstemp_cloexec_def sys_mkstemp_def)
      from gf have fr: "files s2 = files s0" "fdtab s2 = fdtab s0"
        "umask s2 = umask s0" "cwd s2 = cwd s0" by simp_all
      note un = unwind_after_mkstemp[OF ok fr u ul]
      have z: "fault_count s2 = 0" if "fault_count s \<le> 1"
        using gc True ok(6) mc that by simp
      have "files su = files s \<or> files su = files s0"
        using un by (cases "rl = 0") simp_all
      moreover have "files su = files s" if "fault_count s \<le> 1"
        using un z[OF that] by simp
      ultimately show ?thesis using un e ok(2,4) False by auto
    next
      case r2: False
      obtain r3 s3 where sf: "sys_fcntl_setfd fd0 (r2 OR O_CLOEXEC) s2 = (r3, s3)"
        by (cases "sys_fcntl_setfd fd0 (r2 OR O_CLOEXEC) s2")
      note sff = setfd_frame[OF sf]
      note sc = setfd_count[OF sf]
      show ?thesis
      proof (cases "r3 < 0")
        case True
        obtain ru su where u: "mkstemp_unwind t0 fd0 s3 = (ru, su)"
          by (cases "mkstemp_unwind t0 fd0 s3")
        obtain rl sl where ul: "sys_unlink t0 s3 = (rl, sl)"
          by (cases "sys_unlink t0 s3")
        from assms(1) False m nonneg g r2 sf True u have e: "fd = ru" "s1 = su"
          by (simp_all add: mkstemp_cloexec_def sys_mkstemp_def)
        from True sff gf have fr: "files s3 = files s0" "fdtab s3 = fdtab s0"
          "umask s3 = umask s0" "cwd s3 = cwd s0" by simp_all
        note un = unwind_after_mkstemp[OF ok fr u ul]
        have z: "fault_count s3 = 0" if "fault_count s \<le> 1"
          using sc True gf ok(6) gc mc that by simp
        have "files su = files s \<or> files su = files s0"
          using un by (cases "rl = 0") simp_all
        moreover have "files su = files s" if "fault_count s \<le> 1"
          using un z[OF that] by simp
        ultimately show ?thesis using un e ok(2,4) False by auto
      next
        case False
        with assms \<open>\<not> HAVE_MKOSTEMP cfg\<close> m nonneg g r2 sf show ?thesis
          by (simp add: mkstemp_cloexec_def sys_mkstemp_def)
      qed
    qed
  qed
qed

lemma mkstemp_cloexec_ok:
  assumes "mkstemp_cloexec cfg t s = (fd, t1, s1)" and "0 \<le> fd"
  shows "\<exists>q. namei s t1 = Inr q \<and> files s q = None \<and> last_norm t1 \<and>
       files s1 = (files s)(q \<mapsto> Reg (tmp_mode s AND NOT (umask s) AND 511)) \<and>
       fdtab s fd = None \<and>
       fdtab s1 = (fdtab s)(fd \<mapsto> (if HAVE_MKOSTEMP cfg then FD_CLOEXEC
                                     else (0 OR O_CLOEXEC) AND FD_CLOEXEC)) \<and>
       umask s1 = umask s \<and> cwd s1 = cwd s"
proof (cases "HAVE_MKOSTEMP cfg")
  case True
  with assms have "sys_mkostemp t (O_RDWR OR O_CREAT OR O_EXCL OR O_CLOEXEC) s = (fd, t1, s1)"
    by (simp add: mkstemp_cloexec_def)
  from sys_mkostemp_ok[OF this assms(2)] True show ?thesis
    by (simp add: flag_defs)
next
  case False
  obtain fd0 t0 s0 where m: "sys_mkostemp t 0 s = (fd0, t0, s0)"
    by (cases "sys_mkostemp t 0 s")
  have nonneg: "\<not> fd0 < 0"
  proof
    assume "fd0 < 0"
    with assms False m show False by (simp add: mkstemp_cloexec_def sys_mkstemp_def)
  qed
  then have "0 \<le> fd0" by simp
  from sys_mkostemp_ok[OF m this] obtain q where
    ok: "namei s t0 = Inr q" "files s q = None" "last_norm t0"
      "files s0 = (files s)(q \<mapsto> Reg (tmp_mode s AND NOT (umask s) AND 511))"
      "fdtab s fd0 = None" "fdtab s0 = (fdtab s)(fd0 \<mapsto> 0)"
      "umask s0 = umask s" "cwd s0 = cwd s"
    by (auto simp: flag_defs)
  obtain r2 s2 where g: "sys_fcntl_getfd fd0 s0 = (r2, s2)"
    by (cases "sys_fcntl_getfd fd0 s0")
  note gf = getfd_frame[OF g]
  have r2: "\<not> r2 < 0"
  proof
    assume "r2 < 0"
    with assms False m nonneg g show False
      by (auto simp: mkstemp_cloexec_def sys_mkstemp_def mkstemp_unwind_def split: prod.splits)
  qed
  with gf ok(6) have r20: "r2 = 0" by simp
  obtain r3 s3 where sf: "sys_fcntl_setfd fd0 (r2 OR O_CLOEXEC) s2 = (r3, s3)"
    by (cases "sys_fcntl_setfd fd0 (r2 OR O_CLOEXEC) s2")
  note sff = setfd_frame[OF sf]
  have r3: "\<not> r3 < 0"
  proof
    assume "r3 < 0"
    with assms False m nonneg g r2 sf show False
      by (auto simp: mkstemp_cloexec_def sys_mkstemp_def mkstemp_unwind_def split: prod.splits)
  qed
  from assms(1) False m nonneg g r2 sf r3 have e: "fd = fd0" "t1 = t0" "s1 = s3"
    by (simp_all add: mkstemp_cloexec_def sys_mkstemp_def)
  from ok gf sff r3 r20 e False show ?thesis by simp
qed

lemma alloc_frame:
  "sys_alloc str s = (r, s1) \<Longrightarrow>
     files s1 = files s \<and> fdtab s1 = fdtab s \<and> umask s1 = umask s \<and> cwd s1 = cwd s \<and>
     tmp_mode s1 = tmp_mode s"
  unfolding sys_alloc_def
  by (auto split: prod.splits option.splits dest!: next_fault_frame)

lemma alloc_count: "sys_alloc str s = (r, s1) \<Longrightarrow> fault_count s1 \<le> fault_count s"
proof -
  assume a: "sys_alloc str s = (r, s1)"
  obtain f s0 where n: "next_fault s = (f, s0)" by (cases "next_fault s")
  from a n next_fault_count[OF n] show ?thesis
    by (auto simp: sys_alloc_def fault_count_def split: option.splits)
qed

text \<open>\<^verbatim>\<open>xmkstemp\<close> in terms of the creation call it wraps.\<close>

lemma xmkstemp_alloc_fails:
  "sys_alloc ((case (case dir of Some d \<Rightarrow> Some d | None \<Rightarrow> sys_getenv_TMPDIR s) of
                 None \<Rightarrow> PATH_TMP | Some d \<Rightarrow> d) @ ''/'' @ prefix @ ''.XXXXXX'') s = (None, s1) \<Longrightarrow>
   xmkstemp cfg tn dir prefix s = ((- 1, tn), s1)"
  by (simp add: xmkstemp_def Let_def)

lemma xmkstemp_alloc_ok:
  "sys_alloc ((case (case dir of Some d \<Rightarrow> Some d | None \<Rightarrow> sys_getenv_TMPDIR s) of
                 None \<Rightarrow> PATH_TMP | Some d \<Rightarrow> d) @ ''/'' @ prefix @ ''.XXXXXX'') s = (Some t, s1) \<Longrightarrow>
   mkstemp_cloexec cfg t (s1\<lparr>umask := 63\<rparr>) = (fd, t1, s3) \<Longrightarrow>
   xmkstemp cfg tn dir prefix s =
     ((fd, if fd = - 1 then None else Some t1), s3\<lparr>umask := umask s1 AND 511\<rparr>)"
  by (simp add: xmkstemp_def Let_def sys_umask_def)

lemma xmkstemp_cases:
  obtains (nomem) s1 where "xmkstemp cfg tn dir prefix s = ((- 1, tn), s1)"
      "files s1 = files s" "fdtab s1 = fdtab s" "umask s1 = umask s" "cwd s1 = cwd s"
  | (created) t s1 fd t1 s3 where
      "files s1 = files s" "fdtab s1 = fdtab s" "umask s1 = umask s" "cwd s1 = cwd s"
      "tmp_mode s1 = tmp_mode s"
      "mkstemp_cloexec cfg t (s1\<lparr>umask := 63\<rparr>) = (fd, t1, s3)"
      "xmkstemp cfg tn dir prefix s =
         ((fd, if fd = - 1 then None else Some t1), s3\<lparr>umask := umask s AND 511\<rparr>)"
      "fault_count s1 \<le> fault_count s"
proof -
  let ?str = "(case (case dir of Some d \<Rightarrow> Some d | None \<Rightarrow> sys_getenv_TMPDIR s) of
                 None \<Rightarrow> PATH_TMP | Some d \<Rightarrow> d) @ ''/'' @ prefix @ ''.XXXXXX''"
  obtain r s1 where a: "sys_alloc ?str s = (r, s1)" by (cases "sys_alloc ?str s")
  note fr = alloc_frame[OF a]
  show ?thesis
  proof (cases r)
    case None
    with a have "sys_alloc ?str s = (None, s1)" by simp
    from xmkstemp_alloc_fails[OF this, of cfg tn] fr nomem show ?thesis by simp
  next
    case (Some t)
    obtain fd t1 s3 where m: "mkstemp_cloexec cfg t (s1\<lparr>umask := 63\<rparr>) = (fd, t1, s3)"
      by (cases "mkstemp_cloexec cfg t (s1\<lparr>umask := 63\<rparr>)")
    from a Some have "sys_alloc ?str s = (Some t, s1)" by simp
    from xmkstemp_alloc_ok[OF this m, of tn] fr alloc_count[OF a] created[OF _ _ _ _ _ m]
    show ?thesis by simp
  qed
qed




lemmas eval_defs =
  xmkstemp_def mkstemp_cloexec_def mkstemp_unwind_def sys_mkstemp_def sys_mkostemp_def
  open_excl_def sys_alloc_def sys_umask_def sys_getenv_TMPDIR_def PATH_TMP_def namei_def
  start_dir_def components_def cloexec_def resolve_def sys_unlink_def sys_close_def
  trailing_slash_def last_norm_def NAME_MAX_def PATH_MAX_def
  sys_fcntl_getfd_def sys_fcntl_setfd_def sys_dup_def sys_fcntl_dupfd_cloexec_def
  dup_fd_cloexec_def dup_fallback_def dup_unwind_def
  next_fault_def fail_def lowest_free_def upto.simps

lemma resolve_absent: "namei s p = Inr q \<Longrightarrow> files s q = None \<Longrightarrow> resolve s p = None"
  by (simp add: resolve_def)

lemma resolve_file:
  "namei s p = Inr q \<Longrightarrow> files s q = Some (Reg m) \<Longrightarrow> \<not> trailing_slash p \<Longrightarrow>
     resolve s p = Some (Reg m)"
  by (simp add: resolve_def)

lemma fault_count_umask: "fault_count (s\<lparr>umask := m\<rparr>) = fault_count s"
  by (simp add: fault_count_def)

section \<open>The temporary-file factory\<close>

text \<open>
  Claim C3 as stated fails on the code. The \<^verbatim>\<open>unwind\<close> label calls \<^verbatim>\<open>unlink(template)\<close> and
  never looks at its result. In a build without \<^verbatim>\<open>HAVE_MKOSTEMP\<close>, when \<^verbatim>\<open>fcntl(F_GETFD)\<close>
  fails after \<^verbatim>\<open>mkstemp\<close> has created the file and the \<^verbatim>\<open>unlink\<close> of the cleanup fails too
  (\<^verbatim>\<open>EPERM\<close>), \<^verbatim>\<open>xmkstemp\<close> returns \<open>-1\<close> and the new file is still there.
\<close>

theorem xmkstemp_leaves_file_behind:
  "fst (xmkstemp portable None None ''test''
       (tmp_state\<lparr>faults := [None, None, Some Fault_EACCES, Some Fault_EPERM]\<rparr>)) = (- 1, None) \<and>
   resolve tmp_state ''/tmp//test.a1B2c3'' = None \<and>
   resolve (snd (xmkstemp portable None None ''test''
       (tmp_state\<lparr>faults := [None, None, Some Fault_EACCES, Some Fault_EPERM]\<rparr>)))
     ''/tmp//test.a1B2c3'' = Some (Reg 384)"
  by (simp add: eval_defs portable_def tmp_state_def flag_defs errno_defs)

text \<open>
  Claim C3, amended. On every failure path of \<^verbatim>\<open>xmkstemp\<close> no descriptor stays open (the
  descriptor table is what it was before the call), and the file tree is what it was
  before the call or holds the one regular file \<^verbatim>\<open>mkstemp\<close> created. Nothing is left
  behind with \<^verbatim>\<open>HAVE_MKOSTEMP\<close>, nor when the environment fails at most once during the
  call. In the fallback, when \<^verbatim>\<open>mkstemp\<close> has created the file and reading or setting the
  descriptor flags then fails, \<^verbatim>\<open>mkstemp_cloexec\<close> returns \<open>-1\<close>, the descriptor is closed,
  and \<open>errno\<close> is the value the failed \<^verbatim>\<open>fcntl\<close> left, whatever \<^verbatim>\<open>unlink\<close> and \<^verbatim>\<open>close\<close> did
  to it in between; the created name no longer resolves if the \<^verbatim>\<open>unlink\<close> of the cleanup
  succeeded, and still names the new file if that \<^verbatim>\<open>unlink\<close> failed.
\<close>

theorem xmkstemp_failure_cleanup:
  "(xmkstemp cfg tn dir prefix s = ((fd, name), s') \<longrightarrow> fd < 0 \<longrightarrow>
      fdtab s' = fdtab s \<and>
      (files s' = files s \<or> (\<exists>q m. files s q = None \<and> files s' = (files s)(q \<mapsto> Reg m))) \<and>
      (HAVE_MKOSTEMP cfg \<longrightarrow> files s' = files s) \<and>
      (fault_count s \<le> 1 \<longrightarrow> files s' = files s)) \<and>
   (\<not> HAVE_MKOSTEMP cfg \<longrightarrow> sys_mkstemp t u = (fd0, t0, u0) \<longrightarrow> 0 \<le> fd0 \<longrightarrow>
      sys_fcntl_getfd fd0 u0 = (r2, u2) \<longrightarrow> r2 < 0 \<longrightarrow> sys_unlink t0 u2 = (ru, u4) \<longrightarrow>
      (\<exists>u'. mkstemp_cloexec cfg t u = (- 1, t0, u') \<and> errno u' = errno u2 \<and>
            fdtab u' fd0 = None \<and> fdtab u' = fdtab u \<and>
            (ru = 0 \<longrightarrow> resolve u' t0 = None \<and> files u' = files u) \<and>
            (ru \<noteq> 0 \<longrightarrow>
               resolve u' t0 = Some (Reg (tmp_mode u AND NOT (umask u) AND 511))))) \<and>
   (\<not> HAVE_MKOSTEMP cfg \<longrightarrow> sys_mkstemp t u = (fd0, t0, u0) \<longrightarrow> 0 \<le> fd0 \<longrightarrow>
      sys_fcntl_getfd fd0 u0 = (r2, u2) \<longrightarrow> 0 \<le> r2 \<longrightarrow>
      sys_fcntl_setfd fd0 (r2 OR O_CLOEXEC) u2 = (r3, u3) \<longrightarrow> r3 < 0 \<longrightarrow>
      sys_unlink t0 u3 = (ru, u4) \<longrightarrow>
      (\<exists>u'. mkstemp_cloexec cfg t u = (- 1, t0, u') \<and> errno u' = errno u3 \<and>
            fdtab u' fd0 = None \<and> fdtab u' = fdtab u \<and>
            (ru = 0 \<longrightarrow> resolve u' t0 = None \<and> files u' = files u) \<and>
            (ru \<noteq> 0 \<longrightarrow>
               resolve u' t0 = Some (Reg (tmp_mode u AND NOT (umask u) AND 511)))))"
proof -
  have A: "fdtab s' = fdtab s \<and>
      (files s' = files s \<or> (\<exists>q m. files s q = None \<and> files s' = (files s)(q \<mapsto> Reg m))) \<and>
      (HAVE_MKOSTEMP cfg \<longrightarrow> files s' = files s) \<and>
      (fault_count s \<le> 1 \<longrightarrow> files s' = files s)"
    if x: "xmkstemp cfg tn dir prefix s = ((fd, name), s')" and neg: "fd < 0"
  proof (cases rule: xmkstemp_cases[of cfg tn dir prefix s])
    case (nomem s1)
    with x show ?thesis by simp
  next
    case (created t s1 fd1 t1 s3)
    with x have e: "fd1 = fd" "s' = s3\<lparr>umask := umask s AND 511\<rparr>" by simp_all
    from created(8) have "fault_count s \<le> 1 \<longrightarrow> fault_count (s1\<lparr>umask := 63\<rparr>) \<le> 1"
      by (simp add: fault_count_umask)
    with mkstemp_cloexec_fail[OF created(6)] neg e created(1,2) show ?thesis by simp
  qed
  have U: "\<exists>u'. mkstemp_cloexec cfg t u = (- 1, t0, u') \<and> errno u' = errno v \<and>
            fdtab u' fd0 = None \<and> fdtab u' = fdtab u \<and>
            (ru = 0 \<longrightarrow> resolve u' t0 = None \<and> files u' = files u) \<and>
            (ru \<noteq> 0 \<longrightarrow> resolve u' t0 = Some (Reg (tmp_mode u AND NOT (umask u) AND 511)))"
    if m: "sys_mkstemp t u = (fd0, t0, u0)" and p: "0 \<le> fd0"
      and fr: "files v = files u0" "fdtab v = fdtab u0" "umask v = umask u0" "cwd v = cwd u0"
      and ul: "sys_unlink t0 v = (ru, u4)"
      and res: "mkstemp_cloexec cfg t u = (- 1, t0, snd (mkstemp_unwind t0 fd0 v))"
    for v
  proof -
    from m have m': "sys_mkostemp t 0 u = (fd0, t0, u0)" by (simp add: sys_mkstemp_def)
    from sys_mkostemp_ok[OF m' p] obtain q where
      ok: "namei u t0 = Inr q" "files u q = None" "last_norm t0"
        "files u0 = (files u)(q \<mapsto> Reg (tmp_mode u AND NOT (umask u) AND 511))"
        "fdtab u fd0 = None" "fdtab u0 = (fdtab u)(fd0 \<mapsto> 0)"
        "umask u0 = umask u" "cwd u0 = cwd u"
      by (auto simp: flag_defs)
    obtain rw su where w: "mkstemp_unwind t0 fd0 v = (rw, su)"
      by (cases "mkstemp_unwind t0 fd0 v")
    note un = unwind_after_mkstemp[OF ok fr w ul]
    from res w have r: "mkstemp_cloexec cfg t u = (- 1, t0, su)" by simp
    from ok(3) have nt: "\<not> trailing_slash t0" by (simp add: last_norm_def)
    have a: "resolve su t0 = None \<and> files su = files u" if "ru = 0"
    proof -
      from un that have f: "files su = files u" by simp
      with ok(2) have "files su q = None" by simp
      with un f show ?thesis by (simp add: resolve_absent)
    qed
    have b: "resolve su t0 = Some (Reg (tmp_mode u AND NOT (umask u) AND 511))" if "ru \<noteq> 0"
    proof -
      from un that ok(4) have "files su q = Some (Reg (tmp_mode u AND NOT (umask u) AND 511))"
        by simp
      with un nt show ?thesis by (simp add: resolve_file)
    qed
    from un ok(5) have "fdtab su fd0 = None" "fdtab su = fdtab u" "errno su = errno v"
      by simp_all
    with r a b show ?thesis by blast
  qed
  have B: "\<exists>u'. mkstemp_cloexec cfg t u = (- 1, t0, u') \<and> errno u' = errno u2 \<and>
            fdtab u' fd0 = None \<and> fdtab u' = fdtab u \<and>
            (ru = 0 \<longrightarrow> resolve u' t0 = None \<and> files u' = files u) \<and>
            (ru \<noteq> 0 \<longrightarrow> resolve u' t0 = Some (Reg (tmp_mode u AND NOT (umask u) AND 511)))"
    if c: "\<not> HAVE_MKOSTEMP cfg" and m: "sys_mkstemp t u = (fd0, t0, u0)" and p: "0 \<le> fd0"
      and g: "sys_fcntl_getfd fd0 u0 = (r2, u2)" and r: "r2 < 0"
      and ul: "sys_unlink t0 u2 = (ru, u4)"
  proof -
    from getfd_frame[OF g] have fr: "files u2 = files u0" "fdtab u2 = fdtab u0"
      "umask u2 = umask u0" "cwd u2 = cwd u0" by simp_all
    have "mkstemp_cloexec cfg t u = (- 1, t0, snd (mkstemp_unwind t0 fd0 u2))"
      using c m p g r by (simp add: mkstemp_cloexec_def mkstemp_unwind_def split: prod.splits)
    from U[OF m p fr ul this] show ?thesis .
  qed
  have C: "\<exists>u'. mkstemp_cloexec cfg t u = (- 1, t0, u') \<and> errno u' = errno u3 \<and>
            fdtab u' fd0 = None \<and> fdtab u' = fdtab u \<and>
            (ru = 0 \<longrightarrow> resolve u' t0 = None \<and> files u' = files u) \<and>
            (ru \<noteq> 0 \<longrightarrow> resolve u' t0 = Some (Reg (tmp_mode u AND NOT (umask u) AND 511)))"
    if c: "\<not> HAVE_MKOSTEMP cfg" and m: "sys_mkstemp t u = (fd0, t0, u0)" and p: "0 \<le> fd0"
      and g: "sys_fcntl_getfd fd0 u0 = (r2, u2)" and r: "0 \<le> r2"
      and sf: "sys_fcntl_setfd fd0 (r2 OR O_CLOEXEC) u2 = (r3, u3)" and r3: "r3 < 0"
      and ul: "sys_unlink t0 u3 = (ru, u4)"
  proof -
    from getfd_frame[OF g] setfd_frame[OF sf] r3 have fr: "files u3 = files u0"
      "fdtab u3 = fdtab u0" "umask u3 = umask u0" "cwd u3 = cwd u0" by simp_all
    have "mkstemp_cloexec cfg t u = (- 1, t0, snd (mkstemp_unwind t0 fd0 u3))"
      using c m p g r sf r3
      by (simp add: mkstemp_cloexec_def mkstemp_unwind_def split: prod.splits)
    from U[OF m p fr ul this] show ?thesis .
  qed
  from A B C show ?thesis by blast
qed

text \<open>
  The failure paths of C3 at concrete inputs: a fault at \<^verbatim>\<open>F_GETFD\<close> alone; a fault at
  \<^verbatim>\<open>F_GETFD\<close> with a second fault at the cleanup's \<^verbatim>\<open>close\<close>, whose errno does not survive;
  and a fault at \<^verbatim>\<open>F_SETFD\<close> followed by a failing \<^verbatim>\<open>unlink\<close>, which leaves the file.
\<close>

theorem xmkstemp_failure_cleanup_witness:
  "fst (fst (xmkstemp portable None None ''test''
       (tmp_state\<lparr>faults := [None, None, Some Fault_EACCES]\<rparr>))) < 0 \<and>
   fault_count (tmp_state\<lparr>faults := [None, None, Some Fault_EACCES]\<rparr>) \<le> 1 \<and>
   files (snd (xmkstemp portable None None ''test''
       (tmp_state\<lparr>faults := [None, None, Some Fault_EACCES]\<rparr>))) = files tmp_state \<and>
   fdtab (snd (xmkstemp portable None None ''test''
       (tmp_state\<lparr>faults := [None, None, Some Fault_EACCES]\<rparr>))) = fdtab tmp_state \<and>
   fst (sys_mkstemp ''/tmp//test.XXXXXX''
       (tmp_state\<lparr>faults := [None, Some Fault_EACCES, None, Some Fault_EIO]\<rparr>)) = 3 \<and>
   (\<exists>u'. mkstemp_cloexec portable ''/tmp//test.XXXXXX''
            (tmp_state\<lparr>faults := [None, Some Fault_EACCES, None, Some Fault_EIO]\<rparr>)
          = (- 1, ''/tmp//test.a1B2c3'', u') \<and> errno u' = EACCES \<and>
          resolve u' ''/tmp//test.a1B2c3'' = None \<and> fdtab u' 3 = None \<and>
          files u' = files tmp_state) \<and>
   (\<exists>u'. mkstemp_cloexec portable ''/tmp//test.XXXXXX''
            (tmp_state\<lparr>faults := [None, None, Some Fault_ENOMEM, Some Fault_EPERM]\<rparr>)
          = (- 1, ''/tmp//test.a1B2c3'', u') \<and> errno u' = ENOMEM \<and>
          resolve u' ''/tmp//test.a1B2c3'' = Some (Reg 384) \<and> fdtab u' 3 = None)"
proof -
  let ?s = "tmp_state\<lparr>faults := [None, None, Some Fault_EACCES]\<rparr>"
  let ?X = "xmkstemp portable None None ''test'' ?s"
  let ?t = "''/tmp//test.XXXXXX''"
  let ?n = "''/tmp//test.a1B2c3''"
  let ?u = "tmp_state\<lparr>faults := [None, Some Fault_EACCES, None, Some Fault_EIO]\<rparr>"
  let ?v = "tmp_state\<lparr>faults := [None, None, Some Fault_ENOMEM, Some Fault_EPERM]\<rparr>"
  have c: "\<not> HAVE_MKOSTEMP portable" by (simp add: portable_def)
  have x: "?X = ((fst (fst ?X), snd (fst ?X)), snd ?X)" by simp
  have n: "fst (fst ?X) < 0"
    by (simp add: eval_defs portable_def tmp_state_def flag_defs errno_defs)
  have k: "fault_count ?s \<le> 1" by (simp add: fault_count_def)
  obtain u0 where mu: "sys_mkstemp ?t ?u = (3, ?n, u0)"
    by (simp add: eval_defs tmp_state_def flag_defs errno_defs)
  obtain u2 where gu: "sys_fcntl_getfd 3 u0 = (- 1, u2)" and eu: "errno u2 = EACCES"
    using mu by (auto simp add: eval_defs tmp_state_def flag_defs errno_defs)
  obtain u4 where lu: "sys_unlink ?n u2 = (0, u4)"
    using mu gu by (auto simp add: eval_defs tmp_state_def flag_defs errno_defs)
  obtain v0 where mv: "sys_mkstemp ?t ?v = (3, ?n, v0)"
    by (simp add: eval_defs tmp_state_def flag_defs errno_defs)
  obtain v2 where gv: "sys_fcntl_getfd 3 v0 = (0, v2)"
    using mv by (auto simp add: eval_defs tmp_state_def flag_defs errno_defs)
  obtain v3 where sv: "sys_fcntl_setfd 3 (0 OR O_CLOEXEC) v2 = (- 1, v3)" and ev: "errno v3 = ENOMEM"
    using mv gv by (auto simp add: eval_defs tmp_state_def flag_defs errno_defs)
  obtain v4 where lv: "sys_unlink ?n v3 = (- 1, v4)"
    using mv gv sv by (auto simp add: eval_defs tmp_state_def flag_defs errno_defs)
  have tm: "tmp_mode ?v AND NOT (umask ?v) AND 511 = 384" "files ?u = files tmp_state"
    by (simp_all add: tmp_state_def)
  note T = xmkstemp_failure_cleanup
  from T[of portable None None "''test''" ?s "fst (fst ?X)" "snd (fst ?X)" "snd ?X"] x n k
  have 1: "files (snd ?X) = files tmp_state \<and> fdtab (snd ?X) = fdtab tmp_state"
    by simp
  from T[where cfg = portable and t = ?t and u = ?u and ?fd0.0 = 3 and ?t0.0 = ?n
      and ?u0.0 = u0 and ?r2.0 = "- 1" and ?u2.0 = u2 and ru = 0 and ?u4.0 = u4,
      THEN conjunct2, THEN conjunct1] c mu gu eu lu tm
  have 2: "\<exists>u'. mkstemp_cloexec portable ?t ?u = (- 1, ?n, u') \<and>
      errno u' = EACCES \<and> resolve u' ?n = None \<and> fdtab u' 3 = None \<and>
      files u' = files tmp_state"
    by auto
  from T[where cfg = portable and t = ?t and u = ?v and ?fd0.0 = 3 and ?t0.0 = ?n
      and ?u0.0 = v0 and ?r2.0 = 0 and ?u2.0 = v2 and ?r3.0 = "- 1" and ?u3.0 = v3
      and ru = "- 1" and ?u4.0 = v4, THEN conjunct2, THEN conjunct2] c mv gv sv ev lv tm
  have 3: "\<exists>u'. mkstemp_cloexec portable ?t ?v = (- 1, ?n, u') \<and>
      errno u' = ENOMEM \<and> resolve u' ?n = Some (Reg 384) \<and> fdtab u' 3 = None"
    by auto
  from n k 1 2 3 mu show ?thesis by simp
qed

text \<open>
  Claim C6. \<^verbatim>\<open>xmkstemp\<close> leaves the file-creation mask as it found it on every exit path
  (the mask a process holds is within \<^verbatim>\<open>0777\<close>), and the creation runs under the mask
  \<^verbatim>\<open>077\<close>: on success the returned name did not exist before, names a regular file
  afterwards, and its mode is the mode \<^verbatim>\<open>mkstemp\<close> asked for with every group and other
  bit removed, whatever the caller's mask was.
\<close>

theorem xmkstemp_umask_scoped:
  "(umask s AND 511 = umask s \<longrightarrow> umask (snd (xmkstemp cfg tn dir prefix s)) = umask s) \<and>
   (xmkstemp cfg tn dir prefix s = ((fd, Some name), s') \<longrightarrow> 0 \<le> fd \<longrightarrow>
      resolve s name = None \<and>
      resolve s' name = Some (Reg (tmp_mode s AND NOT 63 AND 511)) \<and>
      (tmp_mode s AND NOT 63 AND 511) AND 63 = 0)"
proof (intro conjI impI)
  assume v: "umask s AND 511 = umask s"
  show "umask (snd (xmkstemp cfg tn dir prefix s)) = umask s"
  proof (cases rule: xmkstemp_cases[of cfg tn dir prefix s])
    case (nomem s1)
    then show ?thesis by simp
  next
    case (created t s1 fd1 t1 s3)
    with v show ?thesis by simp
  qed
next
  assume x: "xmkstemp cfg tn dir prefix s = ((fd, Some name), s')" and p: "0 \<le> fd"
  show "resolve s name = None"
  proof (cases rule: xmkstemp_cases[of cfg tn dir prefix s])
    case (nomem s1)
    with x p show ?thesis by simp
  next
    case (created t s1 fd1 t1 s3)
    with x p have e: "fd1 = fd" "t1 = name"
      by (auto split: if_splits)
    from mkstemp_cloexec_ok[OF created(6)] p e obtain q where
      "namei (s1\<lparr>umask := 63\<rparr>) name = Inr q" "files (s1\<lparr>umask := 63\<rparr>) q = None" by auto
    with created(1,4) have "namei s name = Inr q" "files s q = None"
      by (simp_all add: namei_frame[of "s1\<lparr>umask := 63\<rparr>" s])
    then show ?thesis by (rule resolve_absent)
  qed
next
  assume x: "xmkstemp cfg tn dir prefix s = ((fd, Some name), s')" and p: "0 \<le> fd"
  show "resolve s' name = Some (Reg (tmp_mode s AND NOT 63 AND 511))"
  proof (cases rule: xmkstemp_cases[of cfg tn dir prefix s])
    case (nomem s1)
    with x p show ?thesis by simp
  next
    case (created t s1 fd1 t1 s3)
    with x p have e: "fd1 = fd" "t1 = name" "s' = s3\<lparr>umask := umask s AND 511\<rparr>"
      by (auto split: if_splits)
    let ?u = "s1\<lparr>umask := 63\<rparr>"
    from mkstemp_cloexec_ok[OF created(6)] p e obtain q where
      ok: "namei ?u name = Inr q" "files ?u q = None"
        "files s3 = (files ?u)(q \<mapsto> Reg (tmp_mode ?u AND NOT (umask ?u) AND 511))"
        "cwd s3 = cwd ?u" "last_norm name" by auto
    have "files ?u \<subseteq>\<^sub>m files s'"
      using ok(2,3) e(3) by (auto simp: map_le_def)
    from namei_mono[OF ok(1) this] ok(4) e(3) have "namei s' name = Inr q" by simp
    with ok(3,5) e(3) created(5) show ?thesis by (simp add: resolve_def last_norm_def)
  qed
next
  show "(tmp_mode s AND NOT 63 AND 511) AND 63 = 0" by (rule mode_no_group_other)
qed


text \<open>
  The mask of C6 at concrete inputs: a successful creation under the caller's mask
  \<^verbatim>\<open>022\<close>, and a creation that fails because the only candidate name is taken.
\<close>

theorem xmkstemp_umask_scoped_witness:
  "umask tmp_state AND 511 = umask tmp_state \<and>
   umask (snd (xmkstemp linux None None ''test'' tmp_state)) = umask tmp_state \<and>
   fst (xmkstemp linux None None ''test'' tmp_state) = (3, Some ''/tmp//test.a1B2c3'') \<and>
   resolve tmp_state ''/tmp//test.a1B2c3'' = None \<and>
   resolve (snd (xmkstemp linux None None ''test'' tmp_state)) ''/tmp//test.a1B2c3''
     = Some (Reg 384) \<and>
   fst (xmkstemp portable None None ''test'' (tmp_state\<lparr>suffixes := []\<rparr>)) = (- 1, None) \<and>
   umask (snd (xmkstemp portable None None ''test'' (tmp_state\<lparr>suffixes := []\<rparr>))) = 18"
proof -
  let ?X = "xmkstemp linux None None ''test'' tmp_state"
  let ?Y = "xmkstemp portable None None ''test'' (tmp_state\<lparr>suffixes := []\<rparr>)"
  have v: "umask tmp_state AND 511 = umask tmp_state" by (simp add: tmp_state_def)
  have v': "umask (tmp_state\<lparr>suffixes := []\<rparr>) AND 511 = umask (tmp_state\<lparr>suffixes := []\<rparr>)"
    by (simp add: tmp_state_def)
  have r: "fst ?X = (3, Some ''/tmp//test.a1B2c3'')"
    by (simp add: eval_defs linux_def tmp_state_def flag_defs errno_defs)
  then have x: "?X = ((3, Some ''/tmp//test.a1B2c3''), snd ?X)"
    by (metis prod.collapse)
  have y: "fst ?Y = (- 1, None)"
    by (simp add: eval_defs portable_def tmp_state_def flag_defs errno_defs)
  have m: "tmp_mode tmp_state AND NOT 63 AND 511 = 384" by (simp add: tmp_state_def)
  note T = xmkstemp_umask_scoped
  from T[of tmp_state linux None None "''test''" 3 "''/tmp//test.a1B2c3''" "snd ?X"] v x m
  have 1: "umask (snd ?X) = umask tmp_state \<and> resolve tmp_state ''/tmp//test.a1B2c3'' = None \<and>
      resolve (snd ?X) ''/tmp//test.a1B2c3'' = Some (Reg 384)"
    by simp
  from T[of "tmp_state\<lparr>suffixes := []\<rparr>" portable None None "''test''"] v'
  have 2: "umask (snd ?Y) = 18" by (simp add: tmp_state_def)
  from v r y 1 2 show ?thesis by simp
qed

text \<open>
  The flag on the descriptor \<^verbatim>\<open>mkstemp_cloexec\<close> returns. With \<^verbatim>\<open>HAVE_MKOSTEMP\<close> the
  descriptor of every successful call carries \<^verbatim>\<open>FD_CLOEXEC\<close>. Without it the flag is
  written as \<^verbatim>\<open>old_flags | O_CLOEXEC\<close>, and \<^verbatim>\<open>O_CLOEXEC\<close> is not the descriptor flag
  \<^verbatim>\<open>FD_CLOEXEC\<close>: the kernel keeps bit \<open>0\<close> of the argument only, so every successful
  call returns a descriptor without the flag.
\<close>

lemma mkstemp_cloexec_flag:
  assumes "mkstemp_cloexec cfg t s = (fd, t1, s1)" and "0 \<le> fd"
  shows "cloexec s1 fd = HAVE_MKOSTEMP cfg"
proof -
  from mkstemp_cloexec_ok[OF assms] have
    "fdtab s1 fd = Some (if HAVE_MKOSTEMP cfg then FD_CLOEXEC else (0 OR O_CLOEXEC) AND FD_CLOEXEC)"
    by auto
  then show ?thesis by (simp add: cloexec_def flag_defs)
qed

text \<open>
  Claim C2 at a concrete input: \<^verbatim>\<open>xmkstemp(&name, NULL, "test")\<close> in \<open>tmp_state\<close>, built
  without \<^verbatim>\<open>HAVE_MKOSTEMP\<close>, succeeds with descriptor \<open>3\<close>, whose descriptor flags are \<open>0\<close>:
  the close-on-exec flag is not set.
\<close>

theorem xmkstemp_fallback_not_cloexec:
  "fst (xmkstemp portable None None ''test'' tmp_state) = (3, Some ''/tmp//test.a1B2c3'') \<and>
   fdtab (snd (xmkstemp portable None None ''test'' tmp_state)) 3 = Some 0 \<and>
   \<not> cloexec (snd (xmkstemp portable None None ''test'' tmp_state)) 3"
  by (simp add: eval_defs portable_def tmp_state_def flag_defs errno_defs)

section \<open>The descriptor duplicator\<close>

text \<open>
  When \<^verbatim>\<open>fcntl(oldfd, F_DUPFD_CLOEXEC, lowfd)\<close> succeeds its result is at least \<open>lowfd\<close>.
\<close>

lemma dupfd_cloexec_floor:
  "sys_fcntl_dupfd_cloexec oldfd lowfd s = (fd, s1) \<Longrightarrow> 0 \<le> fd \<Longrightarrow> lowfd \<le> fd"
  unfolding sys_fcntl_dupfd_cloexec_def fail_def
  by (auto split: prod.splits option.splits if_splits dest: lowest_free_Some)

text \<open>
  Claim C1 at a concrete input. In \<open>dup_state\<close> the descriptors \<open>6\<close> and \<open>7\<close> are in use
  and the table ends at \<open>8\<close>, so \<^verbatim>\<open>F_DUPFD_CLOEXEC\<close> with the floor \<open>6\<close> fails with
  \<^verbatim>\<open>EMFILE\<close>; the code then calls \<^verbatim>\<open>dup(oldfd)\<close>, which knows no floor, and returns its
  result \<open>3\<close> as a success. A build without \<^verbatim>\<open>F_DUPFD_CLOEXEC\<close> returns the same.
\<close>

theorem dup_fd_cloexec_below_floor:
  "fst (sys_fcntl_dupfd_cloexec 0 6 dup_state) = - 1 \<and>
   errno (snd (sys_fcntl_dupfd_cloexec 0 6 dup_state)) = EMFILE \<and>
   fst (dup_fd_cloexec linux 0 6 dup_state) = 3 \<and>
   fst (dup_fd_cloexec portable 0 6 dup_state) = 3 \<and>
   cloexec (snd (dup_fd_cloexec linux 0 6 dup_state)) 3"
  by (simp add: eval_defs linux_def portable_def dup_state_def flag_defs errno_defs)

section \<open>Facts about mkdir and the loop of mkdir_p\<close>

lemma walk_error: "walk t cur cs = Inl e \<Longrightarrow> e = ENOENT \<or> e = ENOTDIR \<or> e = ENAMETOOLONG"
  by (induction cs arbitrary: cur) (auto split: option.splits node.splits if_splits)

lemma fault_not_EEXIST: "fault_errno f \<noteq> EEXIST"
  by (cases f) (simp_all add: errno_defs)

lemma only_adds_dirs_refl: "files s' = files s \<Longrightarrow> only_adds_dirs s s'"
  by (simp add: only_adds_dirs_def)

lemma only_adds_dirs_trans:
  assumes "only_adds_dirs s s1" and "only_adds_dirs s1 s2"
  shows "only_adds_dirs s s2"
  unfolding only_adds_dirs_def
proof
  fix q
  from assms have
    "files s1 q = files s q \<or> (files s q = None \<and> (\<exists>m. files s1 q = Some (Dir m)))"
    "files s2 q = files s1 q \<or> (files s1 q = None \<and> (\<exists>m. files s2 q = Some (Dir m)))"
    by (simp_all add: only_adds_dirs_def)
  then show "files s2 q = files s q \<or> (files s q = None \<and> (\<exists>m. files s2 q = Some (Dir m)))"
    by auto
qed

lemma only_adds_dirs_le:
  assumes "only_adds_dirs s s'"
  shows "files s \<subseteq>\<^sub>m files s'"
  unfolding map_le_def
proof
  fix q
  assume "q \<in> dom (files s)"
  moreover from assms have
    "files s' q = files s q \<or> (files s q = None \<and> (\<exists>m. files s' q = Some (Dir m)))"
    by (simp add: only_adds_dirs_def)
  ultimately show "files s q = files s' q" by auto
qed

lemma namei_not_EEXIST: "namei s p = Inl e \<Longrightarrow> e \<noteq> EEXIST"
  by (auto simp: namei_def errno_defs split: if_splits dest: walk_error)

lemma sys_mkdir_ok:
  "sys_mkdir p mode s = (r, s1) \<Longrightarrow> r = 0 \<Longrightarrow>
     \<exists>q m. namei s p = Inr q \<and> files s q = None \<and>
       files s1 = (files s)(q \<mapsto> Dir m) \<and> cwd s1 = cwd s \<and>
       fdtab s1 = fdtab s \<and> umask s1 = umask s"
  unfolding sys_mkdir_def fail_def next_fault_def
  by (auto simp: namei_faults split: list.splits option.splits sum.splits)

lemma sys_mkdir_fail:
  "sys_mkdir p mode s = (r, s1) \<Longrightarrow> r \<noteq> 0 \<Longrightarrow>
     r = - 1 \<and> files s1 = files s \<and> cwd s1 = cwd s \<and> fdtab s1 = fdtab s \<and> umask s1 = umask s \<and>
     (errno s1 = EEXIST \<longrightarrow> (\<exists>q n. namei s p = Inr q \<and> files s q = Some n))"
  unfolding sys_mkdir_def fail_def next_fault_def
  by (auto simp: namei_faults fault_not_EEXIST split: list.splits option.splits sum.splits
      dest: namei_not_EEXIST)

lemma sys_mkdir_adds: "sys_mkdir p mode s = (r, s1) \<Longrightarrow> only_adds_dirs s s1"
proof (cases "r = 0")
  case True
  assume "sys_mkdir p mode s = (r, s1)"
  from sys_mkdir_ok[OF this True] show ?thesis
    by (auto simp: only_adds_dirs_def split: if_splits)
next
  case False
  assume "sys_mkdir p mode s = (r, s1)"
  from sys_mkdir_fail[OF this False] show ?thesis
    by (simp add: only_adds_dirs_def)
qed

lemma sys_mkdir_cwd: "sys_mkdir p mode s = (r, s1) \<Longrightarrow> cwd s1 = cwd s"
  using sys_mkdir_ok[of p mode s r s1] sys_mkdir_fail[of p mode s r s1]
  by (cases "r = 0") auto

lemma resolve_frame:
  "files s1 = files s \<Longrightarrow> cwd s1 = cwd s \<Longrightarrow> resolve s1 p = resolve s p"
  by (simp add: resolve_def namei_frame[of s1 s] split: sum.splits)

lemma resolve_exists:
  "namei s p = Inr q \<Longrightarrow> files s q = Some n \<Longrightarrow> \<not> trailing_slash p \<Longrightarrow> resolve s p \<noteq> None"
  by (cases n) (simp_all add: resolve_def)

lemma only_adds_dirs_keeps:
  assumes "only_adds_dirs s s'" and "files s q = Some n"
  shows "files s' q = Some n"
proof -
  from assms(1) have
    "files s' q = files s q \<or> (files s q = None \<and> (\<exists>m. files s' q = Some (Dir m)))"
    by (simp add: only_adds_dirs_def)
  with assms(2) show ?thesis by auto
qed

lemma resolve_mono:
  assumes "only_adds_dirs s s'" and "cwd s' = cwd s" and "resolve s p \<noteq> None"
  shows "resolve s' p = resolve s p"
proof -
  from assms(3) obtain q n where q: "namei s p = Inr q" "files s q = Some n"
    by (auto simp: resolve_def split: sum.splits option.splits)
  from namei_mono[OF q(1) only_adds_dirs_le[OF assms(1)] assms(2)]
  have "namei s' p = Inr q" .
  moreover from only_adds_dirs_keeps[OF assms(1) q(2)] have "files s' q = Some n" .
  ultimately show ?thesis using q by (simp add: resolve_def)
qed

lemma sys_mkdir_exists:
  assumes "sys_mkdir p mode s = (r, s1)" and "r = 0 \<or> errno s1 = EEXIST"
    and "\<not> trailing_slash p"
  shows "resolve s1 p \<noteq> None"
proof (cases "r = 0")
  case True
  from sys_mkdir_ok[OF assms(1) True] obtain q m where
    ok: "namei s p = Inr q" "files s q = None"
      "files s1 = (files s)(q \<mapsto> Dir m)" "cwd s1 = cwd s"
    by blast
  then have "files s \<subseteq>\<^sub>m files s1" by (auto simp: map_le_def)
  from namei_mono[OF ok(1) this ok(4)] ok(3) show ?thesis by (simp add: resolve_def)
next
  case False
  with assms(2) have e: "errno s1 = EEXIST" by simp
  from sys_mkdir_fail[OF assms(1) False] e obtain q n where
    q: "namei s p = Inr q" "files s q = Some n" and fr: "files s1 = files s" "cwd s1 = cwd s"
    by auto
  from resolve_exists[OF q assms(3)] show ?thesis
    by (simp add: resolve_frame[OF fr])
qed

lemma resolve_root: "root_dir s \<Longrightarrow> resolve s ''/'' \<noteq> None"
  by (auto simp: root_dir_def resolve_def namei_def start_dir_def components_def PATH_MAX_def
      split: option.splits node.splits)

lemma without_trailing_slashes_snoc:
  "without_trailing_slashes (y @ ''/'') = without_trailing_slashes y"
  by (simp add: without_trailing_slashes_def)

lemma without_trailing_slashes_id:
  "y \<noteq> [] \<Longrightarrow> \<not> trailing_slash y \<Longrightarrow> without_trailing_slashes y = y"
  by (cases y rule: rev_cases) (simp_all add: without_trailing_slashes_def trailing_slash_def)

lemma strchr_slash_Some:
  "strchr_slash dir p = Some e \<Longrightarrow> p \<le> e \<and> e < length dir \<and> dir ! e = CHR ''/''"
  by (auto simp: strchr_slash_def find_Some_iff)

lemma strchr_slash_first:
  assumes "strchr_slash dir p = Some e" and "p \<le> i" and "i < e"
  shows "dir ! i \<noteq> CHR ''/''"
proof -
  from assms(1) obtain k where k: "k < length [p..<length dir]" "[p..<length dir] ! k = e"
    "\<forall>j<k. \<not> dir ! ([p..<length dir] ! j) = CHR ''/''"
    by (auto simp: strchr_slash_def find_Some_iff)
  from k(1,2) have e: "e = p + k" by simp
  with assms(2,3) have j: "i - p < k" by simp
  with k(1) have "[p..<length dir] ! (i - p) = i" using assms(2) by simp
  with k(3) j show ?thesis by metis
qed

lemma strchr_slash_None:
  assumes "strchr_slash dir p = None" and "p \<le> i" and "i < length dir"
  shows "dir ! i \<noteq> CHR ''/''"
  using assms by (auto simp: strchr_slash_def find_None_iff)

lemma take_Suc_slash:
  "e < length dir \<Longrightarrow> dir ! e = CHR ''/'' \<Longrightarrow> take (Suc e) dir = take e dir @ ''/''"
  by (simp add: take_Suc_conv_app_nth)

lemma take_no_trailing_slash:
  assumes "0 < e" and "e \<le> length dir" and "dir ! (e - 1) \<noteq> CHR ''/''"
  shows "take e dir \<noteq> [] \<and> \<not> trailing_slash (take e dir)"
proof -
  from assms(1,2) have ne: "take e dir \<noteq> []" by auto
  from assms(2) have len: "length (take e dir) = e" by simp
  from ne have "last (take e dir) = take e dir ! (length (take e dir) - 1)"
    by (rule last_conv_nth)
  also from assms(1,2) have "\<dots> = dir ! (e - 1)" by (simp add: min_absorb2)
  finally show ?thesis using ne assms(3) by (simp add: trailing_slash_def)
qed

lemma mkdir_loop_adds:
  "mkdir_loop dir mode p rc s = (r, s') \<Longrightarrow> only_adds_dirs s s'"
proof (induction dir mode p rc s rule: mkdir_loop.induct)
  case (1 dir mode p rc s)
  show ?case
  proof (cases "p < length dir")
    case False
    with "1.prems" show ?thesis
      by (simp add: mkdir_loop.simps[of dir mode p rc s] only_adds_dirs_refl)
  next
    case lt: True
    show ?thesis
    proof (cases "strchr_slash dir p")
      case None
      obtain r1 s1 where m: "sys_mkdir dir mode s = (r1, s1)"
        by (cases "sys_mkdir dir mode s")
      with "1.prems" lt None have "s' = s1"
        by (auto simp: mkdir_loop.simps[of dir mode p rc s] split: if_splits)
      with sys_mkdir_adds[OF m] show ?thesis by simp
    next
      case (Some e)
      show ?thesis
      proof (cases "e = p")
        case True
        with "1.prems" lt Some have "mkdir_loop dir mode (Suc e) rc s = (r, s')"
          by (simp add: mkdir_loop.simps[of dir mode p rc s])
        from "1.IH"(2)[OF lt Some _ this] True show ?thesis by simp
      next
        case ne: False
        obtain r1 s1 where m: "sys_mkdir (take e dir) mode s = (r1, s1)"
          by (cases "sys_mkdir (take e dir) mode s")
        show ?thesis
        proof (cases "r1 \<noteq> 0 \<and> errno s1 \<noteq> EEXIST")
          case True
          with "1.prems" lt Some ne m have "s' = s1"
            by (simp add: mkdir_loop.simps[of dir mode p rc s])
          with sys_mkdir_adds[OF m] show ?thesis by simp
        next
          case False
          with "1.prems" lt Some ne m have l: "mkdir_loop dir mode (Suc e) 0 s1 = (r, s')"
            by (simp add: mkdir_loop.simps[of dir mode p rc s])
          from "1.IH"(1)[OF lt Some ne m[symmetric] False l]
          have "only_adds_dirs s1 s'" .
          with sys_mkdir_adds[OF m] show ?thesis by (rule only_adds_dirs_trans)
        qed
      qed
    qed
  qed
qed

lemma mkdir_loop_exists:
  "mkdir_loop dir mode p rc s = (0, s') \<Longrightarrow>
   resolve s (without_trailing_slashes (take p dir)) \<noteq> None \<Longrightarrow>
   resolve s' (without_trailing_slashes dir) \<noteq> None"
proof (induction dir mode p rc s rule: mkdir_loop.induct)
  case (1 dir mode p rc s)
  note run = "1.prems"(1) and inv = "1.prems"(2)
  show ?case
  proof (cases "p < length dir")
    case False
    with run have "s' = s" by (simp add: mkdir_loop.simps[of dir mode p rc s])
    with False inv show ?thesis by simp
  next
    case lt: True
    show ?thesis
    proof (cases "strchr_slash dir p")
      case None
      obtain r1 s1 where m: "sys_mkdir dir mode s = (r1, s1)"
        by (cases "sys_mkdir dir mode s")
      with run lt None have e: "s' = s1" "r1 = 0 \<or> errno s1 = EEXIST"
        by (auto simp: mkdir_loop.simps[of dir mode p rc s] split: if_splits)
      from lt have "p \<le> length dir - 1" "length dir - 1 < length dir" by simp_all
      from strchr_slash_None[OF None this]
      have nl: "dir ! (length dir - 1) \<noteq> CHR ''/''" .
      from lt have nz: "0 < length dir" by (cases dir) simp_all
      from take_no_trailing_slash[OF nz le_refl nl]
      have n: "dir \<noteq> []" "\<not> trailing_slash dir" by simp_all
      then have "without_trailing_slashes dir = dir"
        by (simp add: without_trailing_slashes_id)
      with sys_mkdir_exists[OF m e(2) n(2)] e(1) show ?thesis by simp
    next
      case (Some e)
      from strchr_slash_Some[OF Some] have e: "p \<le> e" "e < length dir" "dir ! e = CHR ''/''"
        by simp_all
      note tk = take_Suc_slash[OF e(2,3)]
      show ?thesis
      proof (cases "e = p")
        case True
        with run lt Some have l: "mkdir_loop dir mode (Suc e) rc s = (0, s')"
          by (simp add: mkdir_loop.simps[of dir mode p rc s])
        from inv True tk have i: "resolve s (without_trailing_slashes (take (Suc e) dir)) \<noteq> None"
          by (simp add: without_trailing_slashes_snoc)
        from True have "\<not> e \<noteq> p" by simp
        with "1.IH"(2)[OF lt Some _ l i] show ?thesis by blast
      next
        case nep: False
        obtain r1 s1 where m: "sys_mkdir (take e dir) mode s = (r1, s1)"
          by (cases "sys_mkdir (take e dir) mode s")
        from run lt Some nep m have c: "\<not> (r1 \<noteq> 0 \<and> errno s1 \<noteq> EEXIST)"
          and l: "mkdir_loop dir mode (Suc e) 0 s1 = (0, s')"
          by (auto simp: mkdir_loop.simps[of dir mode p rc s] split: if_splits)
        from c have ok: "r1 = 0 \<or> errno s1 = EEXIST" by auto
        from e(1) nep have pe: "p \<le> e - 1" "e - 1 < e" "0 < e" by simp_all
        from strchr_slash_first[OF Some pe(1,2)]
        have nl: "dir ! (e - 1) \<noteq> CHR ''/''" .
        from e(2) have "e \<le> length dir" by simp
        from take_no_trailing_slash[OF pe(3) this nl]
        have n: "take e dir \<noteq> []" "\<not> trailing_slash (take e dir)" by simp_all
        from sys_mkdir_exists[OF m ok n(2)] have "resolve s1 (take e dir) \<noteq> None" .
        with n tk have i: "resolve s1 (without_trailing_slashes (take (Suc e) dir)) \<noteq> None"
          by (simp add: without_trailing_slashes_snoc without_trailing_slashes_id)
        from "1.IH"(1)[OF lt Some nep m[symmetric] c l i] show ?thesis .
      qed
    qed
  qed
qed

lemma mkdir_loop_error:
  "mkdir_loop dir mode p rc s = (r, s') \<Longrightarrow> rc = 0 \<Longrightarrow> r \<noteq> 0 \<Longrightarrow>
     r = - 1 \<and> errno s' \<noteq> EEXIST"
proof (induction dir mode p rc s rule: mkdir_loop.induct)
  case (1 dir mode p rc s)
  note run = "1.prems"(1) and rc = "1.prems"(2) and nz = "1.prems"(3)
  show ?case
  proof (cases "p < length dir")
    case False
    with run rc nz show ?thesis by (simp add: mkdir_loop.simps[of dir mode p])
  next
    case lt: True
    show ?thesis
    proof (cases "strchr_slash dir p")
      case None
      obtain r1 s1 where m: "sys_mkdir dir mode s = (r1, s1)"
        by (cases "sys_mkdir dir mode s")
      with run lt None nz have "s' = s1" "r = r1" "errno s1 \<noteq> EEXIST"
        by (auto simp: mkdir_loop.simps[of dir mode p] split: if_splits)
      with sys_mkdir_fail[OF m] nz show ?thesis by simp
    next
      case (Some e)
      show ?thesis
      proof (cases "e = p")
        case True
        with run lt Some have "mkdir_loop dir mode (Suc e) rc s = (r, s')"
          by (simp add: mkdir_loop.simps[of dir mode p])
        moreover from True have "\<not> e \<noteq> p" by simp
        ultimately show ?thesis using "1.IH"(2)[OF lt Some _ _ rc nz] by blast
      next
        case nep: False
        obtain r1 s1 where m: "sys_mkdir (take e dir) mode s = (r1, s1)"
          by (cases "sys_mkdir (take e dir) mode s")
        show ?thesis
        proof (cases "r1 \<noteq> 0 \<and> errno s1 \<noteq> EEXIST")
          case True
          with run lt Some nep m have "s' = s1" "r = r1"
            by (simp_all add: mkdir_loop.simps[of dir mode p])
          with sys_mkdir_fail[OF m] True show ?thesis by simp
        next
          case False
          with run lt Some nep m have l: "mkdir_loop dir mode (Suc e) 0 s1 = (r, s')"
            by (simp add: mkdir_loop.simps[of dir mode p])
          from "1.IH"(1)[OF lt Some nep m[symmetric] False l refl nz] show ?thesis .
        qed
      qed
    qed
  qed
qed

lemmas mkdir_eval =
  mkdir_p_def mkdir_loop.simps strchr_slash_def sys_mkdir_def sys_alloc_def next_fault_def
  fail_def namei_def start_dir_def components_def resolve_def trailing_slash_def
  inherited_gid_def S_ISGID_def NAME_MAX_def PATH_MAX_def without_trailing_slashes_def

lemma alloc_result: "sys_alloc str s = (Some d, s1) \<Longrightarrow> d = str"
  unfolding sys_alloc_def by (auto split: prod.splits option.splits)

lemma mkdir_under_file:
  "files s [''a''] = Some (Reg m) \<Longrightarrow> sys_mkdir ''/a/b'' mode s = (r, s1) \<Longrightarrow>
     r \<noteq> 0 \<and> errno s1 \<noteq> EEXIST"
  unfolding sys_mkdir_def fail_def next_fault_def
  by (auto simp: namei_def start_dir_def components_def fault_not_EEXIST[unfolded EEXIST_def]
      errno_defs NAME_MAX_def PATH_MAX_def
      split: list.splits option.splits sum.splits node.splits)

lemma mkdir_p_under_file:
  assumes f: "files s [''a''] = Some (Reg m)"
  shows "fst (mkdir_p (Some ''/a/b/c'') mode s) \<noteq> 0"
proof -
  obtain d s1 where a: "sys_alloc ''/a/b/c'' s = (d, s1)" by (cases "sys_alloc ''/a/b/c'' s")
  show ?thesis
  proof (cases d)
    case None
    with a show ?thesis by (simp add: mkdir_p_def ENOMEM_def)
  next
    case (Some dir)
    with a alloc_result have dir: "dir = ''/a/b/c''" by simp
    from a f alloc_frame[OF a] have f1: "files s1 [''a''] = Some (Reg m)" by simp
    obtain r1 s2 where m1: "sys_mkdir ''/a'' mode s1 = (r1, s2)"
      by (cases "sys_mkdir ''/a'' mode s1")
    from only_adds_dirs_keeps[OF sys_mkdir_adds[OF m1] f1]
    have f2: "files s2 [''a''] = Some (Reg m)" .
    obtain r3 s3 where m3: "sys_mkdir ''/a/b'' mode s2 = (r3, s3)"
      by (cases "sys_mkdir ''/a/b'' mode s2")
    note bad = mkdir_under_file[OF f2 m3]
    have c1: "strchr_slash ''/a/b/c'' 1 = Some 2" by (simp add: strchr_slash_def)
    have c3: "strchr_slash ''/a/b/c'' 3 = Some 4" by (simp add: strchr_slash_def)
    have l3: "mkdir_loop ''/a/b/c'' mode 3 0 s2 = (r3, s3)"
      using m3 bad c3 by (simp add: mkdir_loop.simps[of _ _ 3])
    have "fst (mkdir_loop ''/a/b/c'' mode 1 0 s1) \<noteq> 0"
      using m1 l3 bad c1 by (auto simp: mkdir_loop.simps[of _ _ "Suc 0"])
    with a Some dir show ?thesis by (simp add: mkdir_p_def)
  qed
qed

lemma mkdir_p_adds:
  assumes run: "mkdir_p path mode s = (x, t)"
  shows "only_adds_dirs s t"
proof (cases path)
  case None
  with run show ?thesis by (simp add: mkdir_p_def only_adds_dirs_refl)
next
  case (Some str)
  show ?thesis
  proof (cases str)
    case Nil
    with run Some show ?thesis by (simp add: mkdir_p_def only_adds_dirs_refl)
  next
    case (Cons c cs)
    obtain d s0 where a: "sys_alloc str s = (d, s0)" by (cases "sys_alloc str s")
    from alloc_frame[OF a] have fr: "only_adds_dirs s s0" by (simp add: only_adds_dirs_refl)
    show ?thesis
    proof (cases d)
      case None
      with run Some Cons a fr show ?thesis by (simp add: mkdir_p_def)
    next
      case (Some dir)
      with run \<open>path = Some str\<close> Cons a
      have "mkdir_loop dir mode (if c = CHR ''/'' then 1 else 0) 0 s0 = (x, t)"
        by (simp add: mkdir_p_def)
      from only_adds_dirs_trans[OF fr mkdir_loop_adds[OF this]] show ?thesis .
    qed
  qed
qed

subsection \<open>The loop and the algorithm of the specification\<close>

lemma upt_split: "i \<le> j \<Longrightarrow> j \<le> k \<Longrightarrow> [i..<k] = [i..<j] @ [j..<k]"
  by (metis le_Suc_ex upt_add_eq_append)

lemma segment_ends_none:
  assumes "\<And>i. p \<le> i \<Longrightarrow> i < e \<Longrightarrow> dir ! i \<noteq> CHR ''/''" and "e \<le> length dir"
  shows "filter (segment_end dir) [Suc p..<e] = []"
  unfolding filter_empty_conv
proof
  fix x
  assume "x \<in> set [Suc p..<e]"
  then have x: "p \<le> x" "x < e" by simp_all
  with assms(2) have "x \<noteq> length dir" by simp
  with assms(1)[OF x] show "\<not> segment_end dir x" by (simp add: segment_end_def)
qed

lemma mkdir_loop_create_each:
  "rc = 0 \<Longrightarrow>
   mkdir_loop dir mode p rc s =
     create_each (map (\<lambda>e. take e dir) (filter (segment_end dir) [Suc p..<Suc (length dir)])) mode s"
proof (induction dir mode p rc s rule: mkdir_loop.induct)
  case (1 dir mode p rc s)
  note rc = "1.prems"
  show ?case
  proof (cases "p < length dir")
    case False
    with rc show ?thesis by (simp add: mkdir_loop.simps[of dir mode p])
  next
    case lt: True
    show ?thesis
    proof (cases "strchr_slash dir p")
      case None
      have no: "dir ! i \<noteq> CHR ''/''" if "p \<le> i" "i < length dir" for i
        using strchr_slash_None[OF None that] .
      from lt have "[Suc p..<Suc (length dir)] = [Suc p..<length dir] @ [length dir]" by simp
      moreover have "filter (segment_end dir) [Suc p..<length dir] = []"
        by (rule segment_ends_none[OF no]) simp_all
      moreover from lt no[of "length dir - 1"] have "segment_end dir (length dir)"
        by (auto simp: segment_end_def)
      ultimately have
        "map (\<lambda>e. take e dir) (filter (segment_end dir) [Suc p..<Suc (length dir)]) = [dir]"
        by simp
      with lt None show ?thesis
        by (simp add: mkdir_loop.simps[of dir mode p] split: prod.splits)
    next
      case (Some e)
      from strchr_slash_Some[OF Some] have e: "p \<le> e" "e < length dir" "dir ! e = CHR ''/''"
        by simp_all
      show ?thesis
      proof (cases "e = p")
        case True
        from lt have "[Suc p..<Suc (length dir)] = Suc p # [Suc (Suc p)..<Suc (length dir)]"
          by (intro upt_conv_Cons) simp
        moreover from e(3) True have "\<not> segment_end dir (Suc p)"
          by (simp add: segment_end_def)
        ultimately have E:
          "filter (segment_end dir) [Suc p..<Suc (length dir)]
             = filter (segment_end dir) [Suc (Suc e)..<Suc (length dir)]"
          using True by simp
        from True have "\<not> e \<noteq> p" by simp
        with "1.IH"(2)[OF lt Some _ rc]
        have "mkdir_loop dir mode (Suc e) rc s =
            create_each (map (\<lambda>e. take e dir)
              (filter (segment_end dir) [Suc (Suc e)..<Suc (length dir)])) mode s"
          by blast
        with lt Some True E show ?thesis
          by (simp add: mkdir_loop.simps[of dir mode p])
      next
        case nep: False
        have no: "dir ! i \<noteq> CHR ''/''" if "p \<le> i" "i < e" for i
          using strchr_slash_first[OF Some that] .
        from e(1) nep have pe: "Suc p \<le> e" "e \<le> Suc (length dir)" "p \<le> e - 1" "e - 1 < e"
          using e(2) by simp_all
        define rest where
          "rest = map (\<lambda>e. take e dir) (filter (segment_end dir) [Suc (Suc e)..<Suc (length dir)])"
        from e(2) have "[e..<Suc (length dir)] = e # [Suc e..<Suc (length dir)]"
          by (intro upt_conv_Cons) simp
        with upt_split[OF pe(1,2)]
        have A: "[Suc p..<Suc (length dir)] = [Suc p..<e] @ e # [Suc e..<Suc (length dir)]"
          by (simp only:)
        have F: "filter (segment_end dir) [Suc p..<e] = []"
          using e(2) by (intro segment_ends_none[OF no]) simp_all
        from no[OF pe(3,4)] e(3) pe(1) have S: "segment_end dir e"
          by (simp add: segment_end_def)
        from e(2) have B: "[Suc e..<Suc (length dir)] = Suc e # [Suc (Suc e)..<Suc (length dir)]"
          by (intro upt_conv_Cons) simp
        from e(3) have N: "\<not> segment_end dir (Suc e)"
          by (simp add: segment_end_def)
        have E:
          "map (\<lambda>e. take e dir) (filter (segment_end dir) [Suc p..<Suc (length dir)])
             = take e dir # rest"
          by (simp only: A B filter_append filter.simps F S N if_True if_False append_Nil
              list.map rest_def)
        obtain r1 s1 where m: "sys_mkdir (take e dir) mode s = (r1, s1)"
          by (cases "sys_mkdir (take e dir) mode s")
        from lt Some nep m have L: "mkdir_loop dir mode p rc s =
            (if r1 \<noteq> 0 \<and> errno s1 \<noteq> EEXIST then (r1, s1) else mkdir_loop dir mode (Suc e) 0 s1)"
          by (simp add: mkdir_loop.simps[of dir mode p rc s])
        from m have R: "create_each (take e dir # rest) mode s =
            (if r1 \<noteq> 0 \<and> errno s1 \<noteq> EEXIST then (r1, s1) else create_each rest mode s1)"
          by simp
        show ?thesis
        proof (cases "r1 \<noteq> 0 \<and> errno s1 \<noteq> EEXIST")
          case True
          then show ?thesis unfolding E L R by simp
        next
          case False
          from "1.IH"(1)[OF lt Some nep m[symmetric] False refl]
          have "mkdir_loop dir mode (Suc e) 0 s1 = create_each rest mode s1"
            by (simp only: rest_def)
          with False show ?thesis unfolding E L R by auto
        qed
      qed
    qed
  qed
qed

lemma mkdir_p_create_each:
  assumes "path \<noteq> []" and "sys_alloc path s = (Some d, s1)"
  shows "mkdir_p (Some path) mode s = create_each (dir_prefixes path) mode s1"
proof -
  from assms(1) obtain c cs where pc: "path = c # cs" by (cases path) auto
  from alloc_result[OF assms(2)] have d: "d = path" .
  let ?p = "if c = CHR ''/'' then 1 else 0 :: nat"
  from pc assms(2) d have "mkdir_p (Some path) mode s = mkdir_loop path mode ?p 0 s1"
    by (simp add: mkdir_p_def)
  also have "\<dots> = create_each (map (\<lambda>e. take e path)
      (filter (segment_end path) [Suc ?p..<Suc (length path)])) mode s1"
    by (rule mkdir_loop_create_each) simp
  also have "filter (segment_end path) [Suc ?p..<Suc (length path)]
      = filter (segment_end path) [1..<Suc (length path)]"
  proof (cases "c = CHR ''/''")
    case True
    from pc have "[1..<Suc (length path)] = 1 # [Suc 1..<Suc (length path)]"
      by (intro upt_conv_Cons) simp
    then have "filter (segment_end path) [1..<Suc (length path)]
        = filter (segment_end path) (1 # [Suc 1..<Suc (length path)])"
      by (simp only:)
    also from True pc have "\<not> segment_end path 1" by (simp add: segment_end_def)
    then have "filter (segment_end path) (1 # [Suc 1..<Suc (length path)])
        = filter (segment_end path) [Suc 1..<Suc (length path)]"
      by (simp only: filter.simps if_False)
    finally have X: "filter (segment_end path) [1..<Suc (length path)]
        = filter (segment_end path) [Suc 1..<Suc (length path)]" .
    from True have eq: "(if c = CHR ''/'' then 1 else 0 :: nat) = 1" by simp
    show ?thesis by (simp only: eq X)
  next
    case False
    then show ?thesis by simp
  qed
  finally show ?thesis by (simp add: dir_prefixes_def)
qed

lemma dir_prefixes_no_slash: "x \<in> set (dir_prefixes path) \<Longrightarrow> \<not> trailing_slash x"
proof -
  assume "x \<in> set (dir_prefixes path)"
  then obtain e where e: "x = take e path" "0 < e" "e \<le> length path"
    "path ! (e - 1) \<noteq> CHR ''/''"
    by (auto simp: dir_prefixes_def segment_end_def)
  from take_no_trailing_slash[OF e(2,3,4)] e(1) show ?thesis by simp
qed

lemma create_each_frame:
  "create_each ds mode s = (r, s') \<Longrightarrow> only_adds_dirs s s' \<and> cwd s' = cwd s"
proof (induction ds arbitrary: s)
  case Nil
  then show ?case by (simp add: only_adds_dirs_refl)
next
  case (Cons d ds)
  obtain r1 s1 where m: "sys_mkdir d mode s = (r1, s1)" by (cases "sys_mkdir d mode s")
  note a = sys_mkdir_adds[OF m] and c = sys_mkdir_cwd[OF m]
  show ?case
  proof (cases "r1 \<noteq> 0 \<and> errno s1 \<noteq> EEXIST")
    case True
    with Cons.prems m have "s' = s1" by simp
    with a c show ?thesis by simp
  next
    case False
    with Cons.prems m have "create_each ds mode s1 = (r, s')" by simp
    from Cons.IH[OF this] a c show ?thesis by (auto intro: only_adds_dirs_trans)
  qed
qed

lemma create_each_exists:
  "create_each ds mode s = (0, s') \<Longrightarrow> x \<in> set ds \<Longrightarrow> \<not> trailing_slash x \<Longrightarrow>
     resolve s' x \<noteq> None"
proof (induction ds arbitrary: s)
  case Nil
  then show ?case by simp
next
  case (Cons d ds)
  obtain r1 s1 where m: "sys_mkdir d mode s = (r1, s1)" by (cases "sys_mkdir d mode s")
  from Cons.prems(1) m have ok: "r1 = 0 \<or> errno s1 = EEXIST"
    and l: "create_each ds mode s1 = (0, s')"
    by (auto split: if_splits)
  show ?case
  proof (cases "x = d")
    case True
    from sys_mkdir_exists[OF m ok] True Cons.prems(3) have "resolve s1 x \<noteq> None" by simp
    with resolve_mono[of s1 s' x] create_each_frame[OF l] show ?thesis by simp
  next
    case False
    with Cons.prems(2) have "x \<in> set ds" by simp
    from Cons.IH[OF l this Cons.prems(3)] show ?thesis .
  qed
qed

lemma create_each_fail:
  "create_each ds mode s = (r, s') \<Longrightarrow> r \<noteq> 0 \<Longrightarrow>
     \<exists>k t. k < length ds \<and> create_each (take k ds) mode s = (0, t) \<and>
       sys_mkdir (ds ! k) mode t = (r, s') \<and> r = - 1 \<and> errno s' \<noteq> EEXIST"
proof (induction ds arbitrary: s)
  case Nil
  then show ?case by simp
next
  case (Cons d ds)
  obtain r1 s1 where m: "sys_mkdir d mode s = (r1, s1)" by (cases "sys_mkdir d mode s")
  show ?case
  proof (cases "r1 \<noteq> 0 \<and> errno s1 \<noteq> EEXIST")
    case True
    with Cons.prems m have e: "r = r1" "s' = s1" by simp_all
    from sys_mkdir_fail[OF m] True have "r1 = - 1" by simp
    with e m True have
      "0 < length (d # ds) \<and> create_each (take 0 (d # ds)) mode s = (0, s) \<and>
       sys_mkdir ((d # ds) ! 0) mode s = (r, s') \<and> r = - 1 \<and> errno s' \<noteq> EEXIST"
      by simp
    then show ?thesis by blast
  next
    case False
    with Cons.prems m have "create_each ds mode s1 = (r, s')" by simp
    from Cons.IH[OF this Cons.prems(2)] obtain k t where
      k: "k < length ds" "create_each (take k ds) mode s1 = (0, t)"
        "sys_mkdir (ds ! k) mode t = (r, s')" "r = - 1" "errno s' \<noteq> EEXIST"
      by blast
    with m False have
      "Suc k < length (d # ds) \<and> create_each (take (Suc k) (d # ds)) mode s = (0, t) \<and>
       sys_mkdir ((d # ds) ! Suc k) mode t = (r, s') \<and> r = - 1 \<and> errno s' \<noteq> EEXIST"
      by simp
    then show ?thesis by blast
  qed
qed

lemma sys_mkdir_existing:
  assumes "faults s = []" and "resolve s p \<noteq> None"
  shows "sys_mkdir p mode s = (- 1, s\<lparr>errno := EEXIST\<rparr>)"
proof -
  from assms(2) obtain q n where "namei s p = Inr q" "files s q = Some n"
    by (auto simp: resolve_def split: sum.splits option.splits)
  with assms(1) show ?thesis
    by (simp add: sys_mkdir_def next_fault_def fail_def)
qed

lemma create_each_existing:
  "faults s = [] \<Longrightarrow> (\<And>x. x \<in> set ds \<Longrightarrow> resolve s x \<noteq> None) \<Longrightarrow>
     fst (create_each ds mode s) = 0 \<and> files (snd (create_each ds mode s)) = files s"
proof (induction ds arbitrary: s)
  case Nil
  then show ?case by simp
next
  case (Cons d ds)
  let ?s1 = "s\<lparr>errno := EEXIST\<rparr>"
  from Cons.prems have m: "sys_mkdir d mode s = (- 1, ?s1)"
    by (intro sys_mkdir_existing) simp_all
  have "resolve ?s1 x \<noteq> None" if "x \<in> set ds" for x
    using Cons.prems(2)[of x] that by (simp add: resolve_frame[of ?s1 s])
  with Cons.IH[of ?s1] Cons.prems(1)
  have "fst (create_each ds mode ?s1) = 0 \<and> files (snd (create_each ds mode ?s1)) = files s"
    by simp
  with m show ?case by simp
qed

section \<open>The recursive directory creator\<close>

text \<open>
  Claim C4 as stated fails on the code: \<^verbatim>\<open>mkdir\<close> reports \<^verbatim>\<open>EEXIST\<close> for an existing entry
  of any type and \<^verbatim>\<open>mkdir_p\<close> accepts that error without looking at the type. With a
  regular file \<^verbatim>\<open>/a\<close>, \<^verbatim>\<open>mkdir_p("/a", 0755)\<close> returns \<open>0\<close> and \<^verbatim>\<open>/a\<close> still is a regular file;
  \<^verbatim>\<open>mkdir_p("/a/", 0755)\<close> returns \<open>0\<close> as well, and that path names nothing at all
  (\<^verbatim>\<open>ENOTDIR\<close>).
\<close>

theorem mkdir_p_accepts_regular_file:
  "fst (mkdir_p (Some ''/a'') 493 afile_state) = 0 \<and>
   resolve (snd (mkdir_p (Some ''/a'') 493 afile_state)) ''/a'' = Some (Reg 420) \<and>
   fst (mkdir_p (Some ''/a/'') 493 afile_state) = 0 \<and>
   resolve (snd (mkdir_p (Some ''/a/'') 493 afile_state)) ''/a/'' = None"
  by (simp add: mkdir_eval afile_state_def errno_defs)

text \<open>
  Claim C4, amended. When \<^verbatim>\<open>mkdir_p\<close> returns success (in a file tree that has its root
  directory) the full path with its trailing slashes removed names an existing entry
  (\<^verbatim>\<open>lstat\<close> finds one), and so does the path as given unless it ends in a slash; whatever the outcome, every
  entry the call added is a directory and nothing else changed; so after a success the
  entry is a directory unless it is a regular file that was there, at that place,
  before the call. For the path \<^verbatim>\<open>/a/b/c\<close> where \<^verbatim>\<open>/a\<close> is a regular file the call fails.
\<close>

theorem mkdir_p_success:
  "(root_dir s \<longrightarrow> mkdir_p (Some path) mode s = (0, s') \<longrightarrow>
      resolve s' (without_trailing_slashes path) \<noteq> None \<and>
      (\<not> trailing_slash path \<longrightarrow> resolve s' path \<noteq> None)) \<and>
   (mkdir_p (Some path) mode s = (r, s1) \<longrightarrow> only_adds_dirs s s1) \<and>
   (mkdir_p (Some path) mode s = (0, s') \<longrightarrow>
      resolve s' (without_trailing_slashes path) = Some (Reg m) \<longrightarrow>
      (\<exists>q. namei s' (without_trailing_slashes path) = Inr q \<and> files s q = Some (Reg m))) \<and>
   (files s [''a''] = Some (Reg m) \<longrightarrow> fst (mkdir_p (Some ''/a/b/c'') mode s) \<noteq> 0)"
proof -
  have adds: "only_adds_dirs s t" if "mkdir_p (Some path) mode s = (x, t)" for x t
    using that by (rule mkdir_p_adds)
  have ex: "resolve s' (without_trailing_slashes path) \<noteq> None \<and>
      (\<not> trailing_slash path \<longrightarrow> resolve s' path \<noteq> None)"
    if root: "root_dir s" and run: "mkdir_p (Some path) mode s = (0, s')"
  proof (cases path)
    case Nil
    with run show ?thesis by (simp add: mkdir_p_def EINVAL_def)
  next
    case (Cons c cs)
    obtain d s0 where a: "sys_alloc path s = (d, s0)" by (cases "sys_alloc path s")
    note fr = alloc_frame[OF a]
    show ?thesis
    proof (cases d)
      case None
      with run Cons a show ?thesis by (simp add: mkdir_p_def ENOMEM_def)
    next
      case (Some dir)
      with a alloc_result have dir: "dir = path" by simp
      let ?p = "if c = CHR ''/'' then 1 else 0 :: nat"
      from run Cons a Some dir have l: "mkdir_loop path mode ?p 0 s0 = (0, s')"
        by (simp add: mkdir_p_def)
      from root fr have "root_dir s0" by (simp add: root_dir_def)
      then have r0: "resolve s0 ''/'' \<noteq> None" by (rule resolve_root)
      have "without_trailing_slashes (take ?p path) = ''/''"
        using Cons by (simp add: without_trailing_slashes_def)
      with r0 have "resolve s0 (without_trailing_slashes (take ?p path)) \<noteq> None" by simp
      from mkdir_loop_exists[OF l this]
      have e: "resolve s' (without_trailing_slashes path) \<noteq> None" .
      moreover have "resolve s' path \<noteq> None" if "\<not> trailing_slash path"
        using e without_trailing_slashes_id[OF _ that] Cons by simp
      ultimately show ?thesis by simp
    qed
  qed
  have reg: "\<exists>q. namei s' (without_trailing_slashes path) = Inr q \<and> files s q = Some (Reg m)"
    if run: "mkdir_p (Some path) mode s = (0, s')"
      and r: "resolve s' (without_trailing_slashes path) = Some (Reg m)"
  proof -
    from r obtain q where q: "namei s' (without_trailing_slashes path) = Inr q"
      "files s' q = Some (Reg m)"
      by (auto simp: resolve_def split: sum.splits option.splits node.splits if_splits)
    from adds[OF run] have
      "files s' q = files s q \<or> (files s q = None \<and> (\<exists>k. files s' q = Some (Dir k)))"
      by (simp add: only_adds_dirs_def)
    with q show ?thesis by auto
  qed
  from adds ex reg mkdir_p_under_file show ?thesis by blast
qed

text \<open>
  C4 at concrete inputs: \<^verbatim>\<open>/a/b/c\<close> where none of the three exists, and the paths \<^verbatim>\<open>/a\<close>,
  \<^verbatim>\<open>/a/\<close> and \<^verbatim>\<open>/a/b/c\<close> where \<^verbatim>\<open>/a\<close> is a regular file.
\<close>

theorem mkdir_p_success_witness:
  "root_dir tmp_state \<and>
   fst (mkdir_p (Some ''/a/b/c'') 493 tmp_state) = 0 \<and>
   resolve (snd (mkdir_p (Some ''/a/b/c'') 493 tmp_state)) ''/a/b/c'' \<noteq> None \<and>
   resolve (snd (mkdir_p (Some ''/a/b/c'') 493 tmp_state)) ''/a/b/c'' = Some (Dir 493) \<and>
   only_adds_dirs tmp_state (snd (mkdir_p (Some ''/a/b/c'') 493 tmp_state)) \<and>
   fst (mkdir_p (Some ''/a'') 493 afile_state) = 0 \<and>
   resolve (snd (mkdir_p (Some ''/a'') 493 afile_state)) ''/a'' = Some (Reg 420) \<and>
   (\<exists>q. namei (snd (mkdir_p (Some ''/a'') 493 afile_state)) ''/a'' = Inr q \<and>
        files afile_state q = Some (Reg 420)) \<and>
   root_dir afile_state \<and>
   fst (mkdir_p (Some ''/a/'') 493 afile_state) = 0 \<and>
   without_trailing_slashes ''/a/'' = ''/a'' \<and>
   resolve (snd (mkdir_p (Some ''/a/'') 493 afile_state)) ''/a'' \<noteq> None \<and>
   resolve (snd (mkdir_p (Some ''/a/'') 493 afile_state)) ''/a/'' = None \<and>
   files afile_state [''a''] = Some (Reg 420) \<and>
   fst (mkdir_p (Some ''/a/b/c'') 493 afile_state) \<noteq> 0"
proof -
  let ?X = "mkdir_p (Some ''/a/b/c'') 493 tmp_state"
  let ?Y = "mkdir_p (Some ''/a'') 493 afile_state"
  let ?Z = "mkdir_p (Some ''/a/'') 493 afile_state"
  have root: "root_dir tmp_state" "root_dir afile_state"
    by (simp_all add: tmp_state_def afile_state_def root_dir_def)
  have x0: "fst ?X = 0" by (simp add: mkdir_eval tmp_state_def errno_defs)
  then have x: "?X = (0, snd ?X)" by (metis prod.collapse)
  have xd: "resolve (snd ?X) ''/a/b/c'' = Some (Dir 493)"
    by (simp add: mkdir_eval tmp_state_def errno_defs)
  have xt: "\<not> trailing_slash ''/a/b/c''" "without_trailing_slashes ''/a'' = ''/a''"
    "without_trailing_slashes ''/a/'' = ''/a''"
    by (simp_all add: trailing_slash_def without_trailing_slashes_def)
  have y0: "fst ?Y = 0" by (simp add: mkdir_eval afile_state_def errno_defs)
  then have y: "?Y = (0, snd ?Y)" by (metis prod.collapse)
  have yr: "resolve (snd ?Y) ''/a'' = Some (Reg 420)"
    by (simp add: mkdir_eval afile_state_def errno_defs)
  have z0: "fst ?Z = 0" by (simp add: mkdir_eval afile_state_def errno_defs)
  then have z: "?Z = (0, snd ?Z)" by (metis prod.collapse)
  have zr: "resolve (snd ?Z) ''/a/'' = None"
    by (simp add: mkdir_eval afile_state_def errno_defs)
  have f: "files afile_state [''a''] = Some (Reg 420)" by (simp add: afile_state_def)
  note T = mkdir_p_success
  from T[of tmp_state "''/a/b/c''" 493 "snd ?X" 0 "snd ?X"] root x xt
  have 1: "resolve (snd ?X) ''/a/b/c'' \<noteq> None \<and> only_adds_dirs tmp_state (snd ?X)"
    by simp
  from T[of afile_state "''/a''" 493 "snd ?Y" 0 "snd ?Y" 420] y yr f xt
  have 2: "(\<exists>q. namei (snd ?Y) ''/a'' = Inr q \<and> files afile_state q = Some (Reg 420)) \<and>
      fst (mkdir_p (Some ''/a/b/c'') 493 afile_state) \<noteq> 0"
    by simp
  from T[of afile_state "''/a/''" 493 "snd ?Z" 0 "snd ?Z"] root z xt
  have 3: "resolve (snd ?Z) ''/a'' \<noteq> None" by simp
  from root x0 xd y0 yr z0 zr xt f 1 2 3 show ?thesis by simp
qed

text \<open>
  Claim C8. \<^verbatim>\<open>mkdir_p\<close> returns \<^verbatim>\<open>-EINVAL\<close> for a null or empty path and \<^verbatim>\<open>-ENOMEM\<close> when the
  copy of the path cannot be allocated (nothing is created then). Otherwise the call
  is the algorithm of the specification: it attempts \<^verbatim>\<open>mkdir\<close> on the directory
  accumulated at each segment end, in order; a \<^verbatim>\<open>mkdir\<close> that fails with \<^verbatim>\<open>EEXIST\<close> counts
  as done, and the first one that fails with another error ends the call. So a path
  whose directories all exist already gives \<open>0\<close> and changes nothing in the file tree.
  A failure of \<^verbatim>\<open>mkdir_p\<close> is \<^verbatim>\<open>-ENOMEM\<close> or \<open>-1\<close> with an \<open>errno\<close> other than \<^verbatim>\<open>EEXIST\<close>, and
  every entry that existed before is still there. When it is \<open>-1\<close> there is a segment
  \<open>k\<close> such that every earlier segment was attempted and counted as done, the \<^verbatim>\<open>mkdir\<close> of
  segment \<open>k\<close> returned the \<open>-1\<close>, the state \<^verbatim>\<open>mkdir_p\<close> returns is the state that call left
  (no later segment is attempted), and the directory of every earlier segment, created
  by this call or there before, still exists: nothing is rolled back.
\<close>

theorem mkdir_p_errors:
  "mkdir_p None mode s = (- EINVAL, s) \<and>
   mkdir_p (Some []) mode s = (- EINVAL, s) \<and>
   (path \<noteq> [] \<longrightarrow> sys_alloc path s = (None, s1) \<longrightarrow>
      mkdir_p (Some path) mode s = (- ENOMEM, s1) \<and> files s1 = files s) \<and>
   (path \<noteq> [] \<longrightarrow> sys_alloc path s = (Some d, s1) \<longrightarrow>
      mkdir_p (Some path) mode s = create_each (dir_prefixes path) mode s1) \<and>
   (path \<noteq> [] \<longrightarrow> faults s = [] \<longrightarrow> (\<forall>x \<in> set (dir_prefixes path). resolve s x \<noteq> None) \<longrightarrow>
      fst (mkdir_p (Some path) mode s) = 0 \<and>
      files (snd (mkdir_p (Some path) mode s)) = files s) \<and>
   (mkdir_p (Some path) mode s = (r, s') \<longrightarrow> r \<noteq> 0 \<longrightarrow> path \<noteq> [] \<longrightarrow>
      (r = - ENOMEM \<or> r = - 1 \<and> errno s' \<noteq> EEXIST) \<and> files s \<subseteq>\<^sub>m files s') \<and>
   (mkdir_p (Some path) mode s = (r, s') \<longrightarrow> r \<noteq> 0 \<longrightarrow> r \<noteq> - ENOMEM \<longrightarrow> path \<noteq> [] \<longrightarrow>
      (\<exists>k t0 t. k < length (dir_prefixes path) \<and> sys_alloc path s = (Some path, t0) \<and>
         create_each (take k (dir_prefixes path)) mode t0 = (0, t) \<and>
         sys_mkdir (dir_prefixes path ! k) mode t = (- 1, s') \<and>
         r = - 1 \<and> errno s' \<noteq> EEXIST \<and> files s' = files t \<and>
         (\<forall>j<k. resolve s' (dir_prefixes path ! j) \<noteq> None)))"
proof -
  have inval: "mkdir_p None mode s = (- EINVAL, s)" "mkdir_p (Some []) mode s = (- EINVAL, s)"
    by (simp_all add: mkdir_p_def)
  have nomem: "mkdir_p (Some path) mode s = (- ENOMEM, s1) \<and> files s1 = files s"
    if "path \<noteq> []" and a: "sys_alloc path s = (None, s1)"
    using that alloc_frame[OF a] by (cases path) (simp_all add: mkdir_p_def)
  have refine: "mkdir_p (Some path) mode s = create_each (dir_prefixes path) mode s1"
    if "path \<noteq> []" and "sys_alloc path s = (Some d, s1)"
    using that by (rule mkdir_p_create_each)
  have exist: "fst (mkdir_p (Some path) mode s) = 0 \<and>
      files (snd (mkdir_p (Some path) mode s)) = files s"
    if ne: "path \<noteq> []" and nf: "faults s = []"
      and all: "\<forall>x \<in> set (dir_prefixes path). resolve s x \<noteq> None"
  proof -
    from nf have "sys_alloc path s = (Some path, s)"
      by (simp add: sys_alloc_def next_fault_def)
    from mkdir_p_create_each[OF ne this]
    have "mkdir_p (Some path) mode s = create_each (dir_prefixes path) mode s" .
    with create_each_existing[OF nf, of "dir_prefixes path" mode] all show ?thesis by simp
  qed
  have glob: "(r = - ENOMEM \<or> r = - 1 \<and> errno s' \<noteq> EEXIST) \<and> files s \<subseteq>\<^sub>m files s'"
    if run: "mkdir_p (Some path) mode s = (r, s')" and nz: "r \<noteq> 0" and ne: "path \<noteq> []"
  proof -
    from mkdir_p_adds[OF run] have "only_adds_dirs s s'" .
    then have le: "files s \<subseteq>\<^sub>m files s'" by (rule only_adds_dirs_le)
    obtain c cs where pc: "path = c # cs" using ne by (cases path) auto
    obtain d s0 where a: "sys_alloc path s = (d, s0)" by (cases "sys_alloc path s")
    show ?thesis
    proof (cases d)
      case None
      with run pc a le show ?thesis by (simp add: mkdir_p_def)
    next
      case (Some dir)
      with run pc a
      have "mkdir_loop dir mode (if c = CHR ''/'' then 1 else 0) 0 s0 = (r, s')"
        by (simp add: mkdir_p_def)
      from mkdir_loop_error[OF this refl nz] le show ?thesis by simp
    qed
  qed
  have trace: "\<exists>k t0 t. k < length (dir_prefixes path) \<and> sys_alloc path s = (Some path, t0) \<and>
         create_each (take k (dir_prefixes path)) mode t0 = (0, t) \<and>
         sys_mkdir (dir_prefixes path ! k) mode t = (- 1, s') \<and>
         r = - 1 \<and> errno s' \<noteq> EEXIST \<and> files s' = files t \<and>
         (\<forall>j<k. resolve s' (dir_prefixes path ! j) \<noteq> None)"
    if run: "mkdir_p (Some path) mode s = (r, s')" and nz: "r \<noteq> 0" and nm: "r \<noteq> - ENOMEM"
      and ne: "path \<noteq> []"
  proof -
    let ?ds = "dir_prefixes path"
    obtain d t0 where a: "sys_alloc path s = (d, t0)" by (cases "sys_alloc path s")
    obtain c cs where pc: "path = c # cs" using ne by (cases path) auto
    from run pc a nm obtain x where "d = Some x"
      by (cases d) (auto simp: mkdir_p_def)
    with a alloc_result have a': "sys_alloc path s = (Some path, t0)" by auto
    from mkdir_p_create_each[OF ne a'] run have c: "create_each ?ds mode t0 = (r, s')" by simp
    from create_each_fail[OF c nz] obtain k t where
      k: "k < length ?ds" "create_each (take k ?ds) mode t0 = (0, t)"
        "sys_mkdir (?ds ! k) mode t = (r, s')" "r = - 1" "errno s' \<noteq> EEXIST"
      by blast
    from sys_mkdir_fail[OF k(3) nz] have fr: "files s' = files t" "cwd s' = cwd t" by simp_all
    have "resolve s' (?ds ! j) \<noteq> None" if "j < k" for j
    proof -
      from that k(1) have "j < length (take k ?ds)" by simp
      then have "take k ?ds ! j \<in> set (take k ?ds)" by (rule nth_mem)
      with that have "?ds ! j \<in> set (take k ?ds)" by simp
      moreover from that k(1) have "?ds ! j \<in> set ?ds" by simp
      then have "\<not> trailing_slash (?ds ! j)" by (rule dir_prefixes_no_slash)
      ultimately have "resolve t (?ds ! j) \<noteq> None" using create_each_exists[OF k(2)] by blast
      then show ?thesis by (simp add: resolve_frame[OF fr])
    qed
    with a' k fr show ?thesis by blast
  qed
  from inval nomem refine exist glob trace show ?thesis by blast
qed

text \<open>
  C8 at concrete inputs: a failing allocation; \<^verbatim>\<open>/tmp/x\<close> and \<^verbatim>\<open>/tmp\<close> where \<^verbatim>\<open>/tmp\<close> exists;
  and \<^verbatim>\<open>/a/b/c\<close> where the disk is full at the second \<^verbatim>\<open>mkdir\<close>, which leaves the new
  directory \<^verbatim>\<open>/a\<close> behind.
\<close>

theorem mkdir_p_errors_witness:
  "mkdir_p (Some ''/a'') 493 (tmp_state\<lparr>faults := [Some Fault_ENOMEM]\<rparr>)
     = (- 12, tmp_state\<lparr>faults := [], errno := ENOMEM\<rparr>) \<and>
   dir_prefixes ''/tmp/x'' = [''/tmp'', ''/tmp/x''] \<and>
   mkdir_p (Some ''/tmp/x'') 493 tmp_state = create_each [''/tmp'', ''/tmp/x''] 493 tmp_state \<and>
   fst (mkdir_p (Some ''/tmp/x'') 493 tmp_state) = 0 \<and>
   resolve tmp_state ''/tmp'' = Some (Dir 1023) \<and>
   fst (mkdir_p (Some ''/tmp'') 493 tmp_state) = 0 \<and>
   files (snd (mkdir_p (Some ''/tmp'') 493 tmp_state)) = files tmp_state \<and>
   fst (mkdir_p (Some ''/a/b/c'') 493 (tmp_state\<lparr>faults := [None, None, Some Fault_ENOSPC]\<rparr>)) = - 1 \<and>
   errno (snd (mkdir_p (Some ''/a/b/c'') 493
      (tmp_state\<lparr>faults := [None, None, Some Fault_ENOSPC]\<rparr>))) = ENOSPC \<and>
   dir_prefixes ''/a/b/c'' = [''/a'', ''/a/b'', ''/a/b/c''] \<and>
   (\<exists>k t0 t. k < 3 \<and>
      create_each (take k [''/a'', ''/a/b'', ''/a/b/c'']) 493 t0 = (0, t) \<and>
      sys_mkdir ([''/a'', ''/a/b'', ''/a/b/c''] ! k) 493 t
        = (- 1, snd (mkdir_p (Some ''/a/b/c'') 493
             (tmp_state\<lparr>faults := [None, None, Some Fault_ENOSPC]\<rparr>)))) \<and>
   resolve tmp_state ''/a'' = None \<and>
   resolve (snd (mkdir_p (Some ''/a/b/c'') 493
      (tmp_state\<lparr>faults := [None, None, Some Fault_ENOSPC]\<rparr>))) ''/a'' = Some (Dir 493) \<and>
   resolve (snd (mkdir_p (Some ''/a/b/c'') 493
      (tmp_state\<lparr>faults := [None, None, Some Fault_ENOSPC]\<rparr>))) ''/a/b'' = None \<and>
   files tmp_state \<subseteq>\<^sub>m files (snd (mkdir_p (Some ''/a/b/c'') 493
      (tmp_state\<lparr>faults := [None, None, Some Fault_ENOSPC]\<rparr>)))"
proof -
  let ?f = "tmp_state\<lparr>faults := [None, None, Some Fault_ENOSPC]\<rparr>"
  let ?X = "mkdir_p (Some ''/a/b/c'') 493 ?f"
  note T = mkdir_p_errors
  have a: "sys_alloc ''/a'' (tmp_state\<lparr>faults := [Some Fault_ENOMEM]\<rparr>)
      = (None, tmp_state\<lparr>faults := [], errno := ENOMEM\<rparr>)"
    by (simp add: sys_alloc_def next_fault_def tmp_state_def)
  from T[where path = "''/a''" and s = "tmp_state\<lparr>faults := [Some Fault_ENOMEM]\<rparr>"
      and ?s1.0 = "tmp_state\<lparr>faults := [], errno := ENOMEM\<rparr>" and mode = 493,
      THEN conjunct2, THEN conjunct2, THEN conjunct1] a
  have 1: "mkdir_p (Some ''/a'') 493 (tmp_state\<lparr>faults := [Some Fault_ENOMEM]\<rparr>)
     = (- 12, tmp_state\<lparr>faults := [], errno := ENOMEM\<rparr>)"
    by (simp add: ENOMEM_def)
  have p: "dir_prefixes ''/tmp/x'' = [''/tmp'', ''/tmp/x'']" "dir_prefixes ''/tmp'' = [''/tmp'']"
    "dir_prefixes ''/a/b/c'' = [''/a'', ''/a/b'', ''/a/b/c'']"
    by (simp_all add: dir_prefixes_def segment_end_def upt_conv_Cons)
  have b: "sys_alloc ''/tmp/x'' tmp_state = (Some ''/tmp/x'', tmp_state)"
    by (simp add: sys_alloc_def next_fault_def tmp_state_def)
  from T[where path = "''/tmp/x''" and s = tmp_state and d = "''/tmp/x''"
      and ?s1.0 = tmp_state and mode = 493,
      THEN conjunct2, THEN conjunct2, THEN conjunct2, THEN conjunct1] b p
  have 2: "mkdir_p (Some ''/tmp/x'') 493 tmp_state
      = create_each [''/tmp'', ''/tmp/x''] 493 tmp_state"
    by simp
  have 3: "fst (mkdir_p (Some ''/tmp/x'') 493 tmp_state) = 0"
    by (simp add: mkdir_eval tmp_state_def errno_defs)
  have t: "resolve tmp_state ''/tmp'' = Some (Dir 1023)" "faults tmp_state = []"
    "resolve tmp_state ''/a'' = None"
    by (simp_all add: mkdir_eval tmp_state_def)
  from T[where path = "''/tmp''" and s = tmp_state and mode = 493,
      THEN conjunct2, THEN conjunct2, THEN conjunct2, THEN conjunct2, THEN conjunct1] p t
  have 4: "fst (mkdir_p (Some ''/tmp'') 493 tmp_state) = 0 \<and>
      files (snd (mkdir_p (Some ''/tmp'') 493 tmp_state)) = files tmp_state"
    by simp
  have x1: "fst ?X = - 1" by (simp add: mkdir_eval tmp_state_def errno_defs)
  then have x: "?X = (- 1, snd ?X)" by (metis prod.collapse)
  have x2: "errno (snd ?X) = ENOSPC" "resolve (snd ?X) ''/a'' = Some (Dir 493)"
    "resolve (snd ?X) ''/a/b'' = None"
    by (simp_all add: mkdir_eval tmp_state_def errno_defs)
  note G = T[where path = "''/a/b/c''" and s = ?f and mode = 493 and r = "- 1" and s' = "snd ?X",
      THEN conjunct2, THEN conjunct2, THEN conjunct2, THEN conjunct2, THEN conjunct2]
  from G[THEN conjunct1, rule_format, OF x] have g: "files ?f \<subseteq>\<^sub>m files (snd ?X)"
    by simp
  have "\<exists>k t0 t. k < length (dir_prefixes ''/a/b/c'') \<and>
        sys_alloc ''/a/b/c'' ?f = (Some ''/a/b/c'', t0) \<and>
        create_each (take k (dir_prefixes ''/a/b/c'')) 493 t0 = (0, t) \<and>
        sys_mkdir (dir_prefixes ''/a/b/c'' ! k) 493 t = (- 1, snd ?X) \<and>
        - 1 = (- 1 :: int) \<and> errno (snd ?X) \<noteq> EEXIST \<and> files (snd ?X) = files t \<and>
        (\<forall>j<k. resolve (snd ?X) (dir_prefixes ''/a/b/c'' ! j) \<noteq> None)"
    by (rule G[THEN conjunct2, rule_format, OF x]) (simp_all add: ENOMEM_def)
  then obtain k t0 t where "k < length (dir_prefixes ''/a/b/c'')"
    "create_each (take k (dir_prefixes ''/a/b/c'')) 493 t0 = (0, t)"
    "sys_mkdir (dir_prefixes ''/a/b/c'' ! k) 493 t = (- 1, snd ?X)"
    by blast
  with p(3) have "k < 3 \<and>
        create_each (take k [''/a'', ''/a/b'', ''/a/b/c'']) 493 t0 = (0, t) \<and>
        sys_mkdir ([''/a'', ''/a/b'', ''/a/b/c''] ! k) 493 t = (- 1, snd ?X)"
    by simp
  then have 5: "\<exists>k t0 t. k < 3 \<and>
        create_each (take k [''/a'', ''/a/b'', ''/a/b/c'']) 493 t0 = (0, t) \<and>
        sys_mkdir ([''/a'', ''/a/b'', ''/a/b/c''] ! k) 493 t = (- 1, snd ?X)"
    by blast
  from g have 6: "files tmp_state \<subseteq>\<^sub>m files (snd ?X)" by simp
  from 1 2 3 4 5 6 p t x1 x2 show ?thesis by simp
qed

section \<open>Facts about strtol and the sweep\<close>

lemma digit_not_space: "isdigit c \<Longrightarrow> \<not> isspace c"
  by (auto simp: isdigit_def isspace_def)

lemma digit_not_sign: "isdigit c \<Longrightarrow> c \<noteq> CHR ''-'' \<and> c \<noteq> CHR ''+''"
  by (auto simp: isdigit_def)

lemma sign_not_space: "\<not> isspace CHR ''-''" "\<not> isspace CHR ''+''"
  by (simp_all add: isspace_def)

lemma sign_not_digit: "\<not> isdigit CHR ''-''" "\<not> isdigit CHR ''+''"
  by (simp_all add: isdigit_def)

lemma takeWhile_all: "list_all P xs \<Longrightarrow> takeWhile P xs = xs"
  by (induction xs) auto

lemma takeWhile_prefix:
  "list_all P xs \<Longrightarrow> ys \<noteq> [] \<Longrightarrow> \<not> P (hd ys) \<Longrightarrow> takeWhile P (xs @ ys) = xs"
  by (induction xs) (auto simp: neq_Nil_conv)

lemma dropWhile_prefix:
  "list_all P xs \<Longrightarrow> ys \<noteq> [] \<Longrightarrow> \<not> P (hd ys) \<Longrightarrow> dropWhile P (xs @ ys) = ys"
  by (induction xs) (auto simp: neq_Nil_conv)

lemma strtol_of_accepted:
  assumes "strtol_accepts name v"
  shows "strtol name s = (v, length name, s)"
proof -
  from assms obtain ws sg ds where
    n: "name = ws @ sg @ ds" and ws: "list_all isspace ws"
    and sg: "sg = [] \<or> sg = ''+'' \<or> sg = ''-''" and ds: "ds \<noteq> []" "list_all isdigit ds"
    and v: "v = (if sg = ''-'' then - dec_value ds else dec_value ds)"
    and rg: "LONG_MIN \<le> v" "v \<le> LONG_MAX"
    unfolding strtol_accepts_def by blast
  from ds obtain d ds' where dd: "ds = d # ds'" "isdigit d" by (cases ds) auto
  have h: "sg @ ds \<noteq> []" "\<not> isspace (hd (sg @ ds))"
    using sg dd sign_not_space digit_not_space by auto
  have tw: "takeWhile isspace name = ws" and dw: "dropWhile isspace name = sg @ ds"
    unfolding n using takeWhile_prefix[OF ws h] dropWhile_prefix[OF ws h] by simp_all
  have td: "takeWhile isdigit ds = ds" using ds(2) by (rule takeWhile_all)
  have neg: "(case sg @ ds of [] \<Rightarrow> False | c # _ \<Rightarrow> c = CHR ''-'') = (sg = ''-'')"
    using sg dd digit_not_sign[OF dd(2)] by auto
  have sgn: "(case sg @ ds of [] \<Rightarrow> False | c # _ \<Rightarrow> c = CHR ''-'' \<or> c = CHR ''+'') = (sg \<noteq> [])"
    using sg dd digit_not_sign[OF dd(2)] by auto
  have r2: "(if sg \<noteq> [] then tl (sg @ ds) else sg @ ds) = ds"
    using sg by auto
  have len: "length ws + (if sg \<noteq> [] then 1 else 0) + length ds = length name"
    using n sg by auto
  have "strtol name s =
      (if ds = [] then (0, 0, s)
       else if LONG_MAX < v then (LONG_MAX, length name, s\<lparr>errno := ERANGE\<rparr>)
       else if v < LONG_MIN then (LONG_MIN, length name, s\<lparr>errno := ERANGE\<rparr>)
       else (v, length name, s))"
    unfolding strtol_def Let_def tw dw neg sgn r2 td len v ..
  with ds(1) rg show ?thesis by simp
qed

lemma list_all_takeWhile: "list_all P (takeWhile P xs)"
  by (induction xs) auto

lemma strtol_accepted:
  assumes run: "strtol name s = (v, endp, s1)" and e0: "errno s = 0"
    and ok: "\<not> (errno s1 \<noteq> 0 \<or> endp = 0 \<or> endp < length name)"
  shows "strtol_accepts name v \<and> s1 = s \<and> endp = length name"
proof -
  define ws where "ws = takeWhile isspace name"
  define r1 where "r1 = dropWhile isspace name"
  define sg where "sg = (case r1 of [] \<Rightarrow> [] | c # _ \<Rightarrow>
                           if c = CHR ''-'' \<or> c = CHR ''+'' then [c] else [])"
  define r2 where "r2 = (case r1 of [] \<Rightarrow> [] | c # cs \<Rightarrow>
                           if c = CHR ''-'' \<or> c = CHR ''+'' then cs else r1)"
  define ds where "ds = takeWhile isdigit r2"
  define w where "w = (if sg = ''-'' then - dec_value ds else dec_value ds)"
  have n1: "name = ws @ r1" by (simp add: ws_def r1_def)
  have n2: "r1 = sg @ r2" by (auto simp: sg_def r2_def split: list.splits)
  have n3: "r2 = ds @ dropWhile isdigit r2" by (simp add: ds_def)
  have sgc: "sg = [] \<or> sg = ''+'' \<or> sg = ''-''"
    by (auto simp: sg_def split: list.splits)
  have neg: "(case r1 of [] \<Rightarrow> False | c # _ \<Rightarrow> c = CHR ''-'') = (sg = ''-'')"
    by (auto simp: sg_def split: list.splits)
  have sgn: "(case r1 of [] \<Rightarrow> False | c # _ \<Rightarrow> c = CHR ''-'' \<or> c = CHR ''+'') = (sg \<noteq> [])"
    by (auto simp: sg_def split: list.splits)
  have r2': "(if sg \<noteq> [] then tl r1 else r1) = r2"
    by (auto simp: sg_def r2_def split: list.splits)
  have len: "length ws + (if sg \<noteq> [] then 1 else 0) + length ds = length (ws @ sg @ ds)"
    using sgc by auto
  have eq: "strtol name s =
      (if ds = [] then (0, 0, s)
       else if LONG_MAX < w then (LONG_MAX, length (ws @ sg @ ds), s\<lparr>errno := ERANGE\<rparr>)
       else if w < LONG_MIN then (LONG_MIN, length (ws @ sg @ ds), s\<lparr>errno := ERANGE\<rparr>)
       else (w, length (ws @ sg @ ds), s))"
    unfolding strtol_def Let_def ws_def[symmetric] r1_def[symmetric] neg sgn r2'
      ds_def[symmetric] len w_def[symmetric] ..
  from run ok eq e0 have dne: "ds \<noteq> []" and rg: "\<not> LONG_MAX < w" "\<not> w < LONG_MIN"
    and res: "v = w" "endp = length (ws @ sg @ ds)" "s1 = s"
    by (auto simp: ERANGE_def split: if_splits)
  from ok res(2) have "length name \<le> length (ws @ sg @ ds)" by simp
  moreover have "name = (ws @ sg @ ds) @ dropWhile isdigit r2"
    using n1 n2 n3 by simp
  ultimately have nm: "name = ws @ sg @ ds"
    by (metis append_eq_conv_conj length_append le_add1 le_antisym append_Nil2 take_all_iff)
  have "strtol_accepts name v"
    unfolding strtol_accepts_def
    using nm sgc dne rg res(1) list_all_takeWhile[of isspace name]
      list_all_takeWhile[of isdigit r2]
    by (intro exI[of _ ws] exI[of _ sg] exI[of _ ds]) (auto simp: ws_def ds_def w_def)
  with res nm show ?thesis by simp
qed

lemma in_set_iff: "(in_set x xs \<noteq> 0) = (x \<in> set xs)"
  by (induction xs) auto

lemma strtol_frame: "strtol name s = (v, endp, s1) \<Longrightarrow> fdtab s1 = fdtab s"
  by (auto simp: strtol_def Let_def split: if_splits)

lemma strtol_accepts_unique: "strtol_accepts name v \<Longrightarrow> strtol_accepts name w \<Longrightarrow> v = w"
  using strtol_of_accepted[of name v undefined] strtol_of_accepted[of name w undefined]
  by simp

lemma sweep_entry_fdtab:
  "fdtab (sweep_entry exclude dfd name s) =
     (if \<exists>v. strtol_accepts name v \<and> long_to_int v \<noteq> dfd \<and> long_to_int v \<notin> set exclude
      then (fdtab s)((long_to_int (fst (strtol name s))) := None)
      else fdtab s)"
proof (cases "\<exists>v. strtol_accepts name v")
  case True
  then obtain v where a: "strtol_accepts name v" ..
  have u: "strtol_accepts name w \<Longrightarrow> w = v" for w
    using a by (rule strtol_accepts_unique[rotated])
  obtain r sc where c: "sys_close (long_to_int v) (s\<lparr>errno := 0\<rparr>) = (r, sc)"
    by (cases "sys_close (long_to_int v) (s\<lparr>errno := 0\<rparr>)")
  from close_frame[OF c] have cf: "fdtab sc = (fdtab s)(long_to_int v := None)" by simp
  have ne: "name \<noteq> []" using a by (auto simp: strtol_accepts_def)
  have st: "strtol name (s\<lparr>errno := 0\<rparr>) = (v, length name, s\<lparr>errno := 0\<rparr>)"
    by (rule strtol_of_accepted[OF a])
  have st2: "fst (strtol name s) = v" by (simp add: strtol_of_accepted[OF a])
  have ex: "(\<exists>w. strtol_accepts name w \<and> long_to_int w \<noteq> dfd \<and> long_to_int w \<notin> set exclude)
      = (long_to_int v \<noteq> dfd \<and> long_to_int v \<notin> set exclude)"
    using a u by blast
  have "fdtab (sweep_entry exclude dfd name s) =
      (if long_to_int v \<noteq> dfd \<and> long_to_int v \<notin> set exclude
       then (fdtab s)(long_to_int v := None) else fdtab s)"
    using ne by (simp add: sweep_entry_def Let_def st in_set_iff c cf)
  then show ?thesis unfolding ex st2 .
next
  case False
  obtain v endp s1 where r: "strtol name (s\<lparr>errno := 0\<rparr>) = (v, endp, s1)"
    by (cases "strtol name (s\<lparr>errno := 0\<rparr>)")
  have "errno s1 \<noteq> 0 \<or> endp = 0 \<or> endp < length name"
  proof (rule ccontr)
    assume "\<not> ?thesis"
    from strtol_accepted[OF r _ this] False show False by simp
  qed
  with r False strtol_frame[OF r] show ?thesis
    by (auto simp: sweep_entry_def)
qed

lemma sweep_entry_at:
  "fdtab (sweep_entry exclude dfd name s) fd =
     (if entry_target exclude dfd name fd then None else fdtab s fd)"
proof (cases "\<exists>v. strtol_accepts name v")
  case True
  then obtain v where a: "strtol_accepts name v" ..
  have u: "strtol_accepts name w \<Longrightarrow> w = v" for w
    using a by (rule strtol_accepts_unique[rotated])
  have st2: "fst (strtol name s) = v" by (simp add: strtol_of_accepted[OF a])
  have ex: "(\<exists>w. strtol_accepts name w \<and> long_to_int w \<noteq> dfd \<and> long_to_int w \<notin> set exclude)
      = (long_to_int v \<noteq> dfd \<and> long_to_int v \<notin> set exclude)"
    using a u by blast
  have tg: "entry_target exclude dfd name fd
      = (long_to_int v = fd \<and> fd \<noteq> dfd \<and> fd \<notin> set exclude)"
    unfolding entry_target_def using a u by blast
  show ?thesis unfolding sweep_entry_fdtab ex st2 tg by auto
next
  case False
  then show ?thesis by (auto simp: sweep_entry_fdtab entry_target_def)
qed

lemma sweep_entries_at:
  "fdtab (sweep_entries exclude dfd entries s) fd =
     (if \<exists>name \<in> set entries. entry_target exclude dfd name fd then None else fdtab s fd)"
  by (induction entries arbitrary: s) (auto simp: sweep_entry_at)

lemma opendir_ok:
  "sys_opendir s = (Some (dfd, entries), s1) \<Longrightarrow>
     procfd s = Some entries \<and> fdtab s dfd = None \<and> fdtab s1 = (fdtab s)(dfd \<mapsto> FD_CLOEXEC)"
  unfolding sys_opendir_def next_fault_def
  by (auto split: list.splits option.splits dest: lowest_free_Some)

lemma close_all_fds_at:
  assumes o: "sys_opendir s = (Some (dfd, entries), s1)"
  shows "fdtab (close_all_fds exclude s) fd =
     (if \<exists>name \<in> set entries. entry_target exclude dfd name fd then None else fdtab s fd)"
proof -
  let ?t = "sweep_entries exclude dfd entries s1"
  obtain r sc where c: "sys_close dfd ?t = (r, sc)" by (cases "sys_close dfd ?t")
  from o c have e: "close_all_fds exclude s = sc"
    by (simp add: close_all_fds_def sys_closedir_def)
  from close_frame[OF c] have "fdtab sc = (fdtab ?t)(dfd := None)" by simp
  with e opendir_ok[OF o] show ?thesis
    by (auto simp: sweep_entries_at entry_target_def)
qed

lemma digit_val_range: "isdigit c \<Longrightarrow> 0 \<le> digit_val c \<and> digit_val c \<le> 9"
  by (auto simp: isdigit_def digit_val_def)

lemma foldl_dec_nonneg:
  "list_all isdigit ds \<Longrightarrow> 0 \<le> a \<Longrightarrow> 0 \<le> foldl (\<lambda>a c. 10 * a + digit_val c) a ds"
proof (induction ds arbitrary: a)
  case Nil
  then show ?case by simp
next
  case (Cons d ds)
  from Cons.prems digit_val_range[of d] have "0 \<le> 10 * a + digit_val d" by simp
  with Cons show ?case by simp
qed

lemma dec_value_nonneg: "list_all isdigit ds \<Longrightarrow> 0 \<le> dec_value ds"
  by (simp add: dec_value_def foldl_dec_nonneg)

lemma long_to_int_id: "- (2 ^ 31) \<le> v \<Longrightarrow> v < 2 ^ 31 \<Longrightarrow> long_to_int v = v"
  by (simp add: long_to_int_def mod_pos_pos_trivial)

lemma digit_string_accepted:
  assumes "digit_string name" and "dec_value name < 2 ^ 31"
  shows "strtol_accepts name (dec_value name) \<and> long_to_int (dec_value name) = dec_value name"
proof -
  from assms(1) have d: "name \<noteq> []" "list_all isdigit name" by (simp_all add: digit_string_def)
  note nn = dec_value_nonneg[OF d(2)]
  have "strtol_accepts name (dec_value name)"
    unfolding strtol_accepts_def
    using d nn assms(2)
    by (intro exI[of _ "[]"] exI[of _ name]) (simp add: LONG_MIN_def LONG_MAX_def)
  moreover from nn assms(2) have "long_to_int (dec_value name) = dec_value name"
    by (intro long_to_int_id) simp_all
  ultimately show ?thesis ..
qed

lemmas sweep_eval =
  close_all_fds_def sys_opendir_def sys_closedir_def sys_close_def sweep_entry_def strtol_def
  long_to_int_def isspace_def isdigit_def digit_val_def dec_value_def LONG_MAX_def LONG_MIN_def
  next_fault_def fail_def lowest_free_def upto.simps Let_def

section \<open>The descriptor sweeper\<close>

text \<open>
  Claim C7 as stated fails on the code: the name test is the one of \<^verbatim>\<open>strtol\<close>, which
  also consumes leading white space and a sign. The entry \<^verbatim>\<open>+5\<close> is not a digit string,
  and the sweep closes descriptor \<open>5\<close> for it.
\<close>

theorem close_all_fds_accepts_signed_name:
  "\<not> digit_string ''+5'' \<and>
   fdtab (sweep_state\<lparr>procfd := Some [''0'', ''1'', ''2'', ''3'', ''+5'']\<rparr>) 5 = Some 0 \<and>
   fdtab (close_all_fds [0, 1, 2]
            (sweep_state\<lparr>procfd := Some [''0'', ''1'', ''2'', ''3'', ''+5'']\<rparr>)) 5 = None"
  by (simp add: sweep_eval sweep_state_def digit_string_def flag_defs errno_defs)

text \<open>
  Claim C7, amended. With the directory stream open on \<open>dfd\<close>, a descriptor \<open>fd\<close> is
  closed by \<^verbatim>\<open>close_all_fds\<close> if and only if some entry name is consumed in full by
  \<^verbatim>\<open>strtol\<close> (white space, an optional sign, one or more digits, nothing after, value
  within \<^verbatim>\<open>long\<close>) with a value whose conversion to \<^verbatim>\<open>int\<close> is \<open>fd\<close>, and \<open>fd\<close> is neither
  \<open>dfd\<close> nor in the exclusion set; every other descriptor is left as it was, and the
  stream's own descriptor is closed by \<^verbatim>\<open>closedir\<close>. The same holds for one pass of the
  loop body. Every digit string with a value below \<open>2^31\<close> is such a name, for the
  descriptor it spells.
\<close>

theorem close_all_fds_closes:
  "(sys_opendir s = (Some (dfd, entries), s1) \<longrightarrow>
      fdtab (close_all_fds exclude s) fd =
        (if (\<exists>name \<in> set entries. \<exists>v. strtol_accepts name v \<and> long_to_int v = fd) \<and>
            fd \<noteq> dfd \<and> fd \<notin> set exclude
         then None else fdtab s fd)) \<and>
   fdtab (sweep_entry exclude dfd name s) fd =
     (if (\<exists>v. strtol_accepts name v \<and> long_to_int v = fd) \<and> fd \<noteq> dfd \<and> fd \<notin> set exclude
      then None else fdtab s fd) \<and>
   (digit_string name \<longrightarrow> dec_value name < 2 ^ 31 \<longrightarrow>
      strtol_accepts name (dec_value name) \<and> long_to_int (dec_value name) = dec_value name)"
proof -
  have A: "fdtab (close_all_fds exclude s) fd =
        (if (\<exists>name \<in> set entries. \<exists>v. strtol_accepts name v \<and> long_to_int v = fd) \<and>
            fd \<noteq> dfd \<and> fd \<notin> set exclude
         then None else fdtab s fd)"
    if o: "sys_opendir s = (Some (dfd, entries), s1)"
  proof -
    have "(\<exists>name \<in> set entries. entry_target exclude dfd name fd) =
        ((\<exists>name \<in> set entries. \<exists>v. strtol_accepts name v \<and> long_to_int v = fd) \<and>
            fd \<noteq> dfd \<and> fd \<notin> set exclude)"
      unfolding entry_target_def by blast
    with close_all_fds_at[OF o, of exclude fd] show ?thesis by simp
  qed
  have B: "fdtab (sweep_entry exclude dfd name s) fd =
     (if (\<exists>v. strtol_accepts name v \<and> long_to_int v = fd) \<and> fd \<noteq> dfd \<and> fd \<notin> set exclude
      then None else fdtab s fd)"
    using sweep_entry_at[of exclude dfd name s fd] by (simp add: entry_target_def)
  from A B digit_string_accepted show ?thesis by blast
qed

text \<open>
  C7 at a concrete input: \<open>0, 1, 2, 5, 6, 7\<close> open and \<open>0, 1, 2\<close> excluded leaves exactly
  \<open>0, 1, 2\<close> open; an entry with a leading letter is skipped.
\<close>

theorem close_all_fds_closes_witness:
  "fst (sys_opendir sweep_state) = Some (3, [''0'', ''1'', ''2'', ''3'', ''5'', ''6'', ''7'']) \<and>
   fdtab (close_all_fds [0, 1, 2] sweep_state) 0 = Some 0 \<and>
   fdtab (close_all_fds [0, 1, 2] sweep_state) 1 = Some 0 \<and>
   fdtab (close_all_fds [0, 1, 2] sweep_state) 2 = Some 0 \<and>
   fdtab (close_all_fds [0, 1, 2] sweep_state) 3 = None \<and>
   fdtab (close_all_fds [0, 1, 2] sweep_state) 5 = None \<and>
   fdtab (close_all_fds [0, 1, 2] sweep_state) 6 = None \<and>
   fdtab (close_all_fds [0, 1, 2] sweep_state) 7 = None \<and>
   fdtab (sweep_entry [0, 1, 2] 3 ''6'' sweep_state) 6 = None \<and>
   fdtab (sweep_entry [0, 1, 2] 3 ''x6'' sweep_state) 6 = Some 0 \<and>
   digit_string ''7'' \<and> dec_value ''7'' < 2 ^ 31 \<and> strtol_accepts ''7'' 7"
proof -
  let ?es = "[''0'', ''1'', ''2'', ''3'', ''5'', ''6'', ''7'']"
  note T = close_all_fds_closes
  have o1: "fst (sys_opendir sweep_state) = Some (3, ?es)"
    by (simp add: sweep_eval sweep_state_def)
  then have o: "sys_opendir sweep_state = (Some (3, ?es), snd (sys_opendir sweep_state))"
    by (metis prod.collapse)
  have d: "digit_string ''5''" "digit_string ''6''" "digit_string ''7''"
    by (simp_all add: digit_string_def isdigit_def)
  have v: "dec_value ''5'' = 5" "dec_value ''6'' = 6" "dec_value ''7'' = 7"
    by (simp_all add: dec_value_def digit_val_def)
  from T[where name = "''5''"] d v have a5: "strtol_accepts ''5'' 5 \<and> long_to_int 5 = 5" by simp
  from T[where name = "''6''"] d v have a6: "strtol_accepts ''6'' 6 \<and> long_to_int 6 = 6" by simp
  from T[where name = "''7''"] d v have a7: "strtol_accepts ''7'' 7 \<and> long_to_int 7 = 7" by simp
  have s: "fdtab sweep_state 0 = Some 0" "fdtab sweep_state 1 = Some 0"
    "fdtab sweep_state 2 = Some 0" "fdtab sweep_state 3 = None" "fdtab sweep_state 6 = Some 0"
    by (simp_all add: sweep_state_def)
  have k: "fdtab (close_all_fds [0, 1, 2] sweep_state) fd = fdtab sweep_state fd"
    if "fd = 3 \<or> fd \<in> set [0, 1, 2]" for fd
    using T[where s = sweep_state and dfd = 3 and entries = ?es and exclude = "[0, 1, 2]"
        and fd = fd and ?s1.0 = "snd (sys_opendir sweep_state)"] o that
    by auto
  have c: "fdtab (close_all_fds [0, 1, 2] sweep_state) fd = None"
    if "strtol_accepts name fd \<and> long_to_int fd = fd" "name \<in> set ?es" "fd \<noteq> 3"
      "fd \<notin> set [0, 1, 2]" for fd name
  proof -
    from that have "\<exists>name \<in> set ?es. \<exists>v. strtol_accepts name v \<and> long_to_int v = fd" by blast
    with T[where s = sweep_state and dfd = 3 and entries = ?es and exclude = "[0, 1, 2]"
        and fd = fd and ?s1.0 = "snd (sys_opendir sweep_state)"] o that(3,4)
    show ?thesis by simp
  qed
  have e6: "fdtab (sweep_entry [0, 1, 2] 3 ''6'' sweep_state) 6 = None"
    using T[where name = "''6''" and fd = 6 and dfd = 3 and exclude = "[0, 1, 2]"
        and s = sweep_state] a6
    by auto
  have nx: "\<not> (\<exists>v. strtol_accepts ''x6'' v)"
  proof
    assume "\<exists>v. strtol_accepts ''x6'' v"
    then obtain v where "strtol_accepts ''x6'' v" ..
    from strtol_of_accepted[OF this, of sweep_state] show False
      by (simp add: strtol_def isspace_def isdigit_def Let_def)
  qed
  have ex6: "fdtab (sweep_entry [0, 1, 2] 3 ''x6'' sweep_state) 6 = Some 0"
    using T[where name = "''x6''" and fd = 6 and dfd = 3 and exclude = "[0, 1, 2]"
        and s = sweep_state] nx s
    by auto
  from o1 k[of 0] k[of 1] k[of 2] k[of 3] c[OF a5] c[OF a6] c[OF a7] s e6 ex6 d v a7
  show ?thesis by simp
qed

section \<open>Facts about the copy loops\<close>

lemma io_frame_refl: "io_frame s s"
  by (simp add: io_frame_def)

lemma io_frame_trans: "io_frame s s1 \<Longrightarrow> io_frame s1 s2 \<Longrightarrow> io_frame s s2"
  by (simp add: io_frame_def)

lemma sys_write_result:
  "sys_write buf count s = (nw, s1) \<Longrightarrow>
     io_frame s s1 \<and> pos s1 = pos s \<and> rd_calls s1 = rd_calls s \<and> sf_calls s1 = sf_calls s \<and>
     wr_calls s1 = Suc (wr_calls s) \<and>
     (if nw < 0 then dst s1 = dst s
      else nw \<le> max count 0 \<and> dst s1 = dst s @ take (nat nw) buf)"
  unfolding sys_write_def io_frame_def
  by (auto simp: Let_def split: xfer.splits)

lemma sys_write_progress:
  "sys_write buf count s = (nw, s1) \<Longrightarrow> wr_plan s (wr_calls s) \<noteq> Upto 0 \<Longrightarrow> 0 < count \<Longrightarrow>
     nw \<noteq> 0"
  unfolding sys_write_def
  by (auto simp: Let_def split: xfer.splits)

lemma sys_write_stuck:
  "wr_plan s (wr_calls s) = Upto 0 \<Longrightarrow>
     sys_write buf count s = (0, s\<lparr>wr_calls := Suc (wr_calls s)\<rparr>)"
  unfolding sys_write_def by (simp add: Let_def)

lemma xfer_amount:
  "m = min count (min avail (max 1 n)) \<Longrightarrow>
     m \<le> count \<and> m \<le> avail \<and> (m = 0 \<longrightarrow> count = 0 \<or> avail = 0)"
  for m count avail n :: nat
  by auto

lemma sys_read_result:
  assumes "sys_read count s = (nr, buf, s1)"
  shows "io_frame s s1 \<and> dst s1 = dst s \<and> wr_calls s1 = wr_calls s \<and>
     rd_calls s1 = Suc (rd_calls s) \<and>
     (if nr < 0 then pos s1 = pos s
      else buf = take (nat nr) (drop (pos s) (src s)) \<and>
           nat nr \<le> length (src s) - pos s \<and>
           pos s1 = pos s + nat nr \<and>
           (nr = 0 \<longrightarrow> count = 0 \<or> length (src s) \<le> pos s))"
proof (cases "rd_plan s (rd_calls s)")
  case Err
  with assms show ?thesis by (auto simp: sys_read_def io_frame_def)
next
  case (Upto n)
  define m where "m = min count (min (length (src s) - pos s) (max 1 n))"
  note xa = xfer_amount[OF m_def]
  from assms Upto have r: "nr = int m" "buf = take m (drop (pos s) (src s))"
    "s1 = s\<lparr>pos := pos s + m, rd_calls := Suc (rd_calls s)\<rparr>"
    by (simp_all add: sys_read_def Let_def m_def)
  from r xa show ?thesis by (auto simp: io_frame_def)
qed

lemma sys_sendfile_result:
  assumes "sys_sendfile count s = (nw, s1)"
  shows "io_frame s s1 \<and> wr_calls s1 = wr_calls s \<and> rd_calls s1 = rd_calls s \<and>
     (if nw < 0 then pos s1 = pos s \<and> dst s1 = dst s
      else dst s1 = dst s @ take (nat nw) (drop (pos s) (src s)) \<and>
           pos s1 = pos s + nat nw \<and> nat nw \<le> length (src s) - pos s \<and>
           nat nw \<le> nat count \<and>
           (nw = 0 \<longrightarrow> count \<le> 0 \<or> length (src s) \<le> pos s))"
proof (cases "sf_plan s (sf_calls s)")
  case Err
  with assms show ?thesis by (auto simp: sys_sendfile_def io_frame_def)
next
  case (Upto n)
  define m where "m = min (nat count) (min (length (src s) - pos s) (max 1 n))"
  note xa = xfer_amount[OF m_def]
  from assms Upto have r: "nw = int m"
    "s1 = s\<lparr>dst := dst s @ take m (drop (pos s) (src s)), pos := pos s + m,
            sf_calls := Suc (sf_calls s)\<rparr>"
    by (simp_all add: sys_sendfile_def Let_def m_def)
  with xa show ?thesis by (auto simp: io_frame_def)
qed

lemma write_chunk_result:
  assumes run: "write_chunk buf0 off0 nr0 s0 = Some y0" and off0: "0 \<le> off0"
  shows "io_frame s0 (snd y0) \<and> pos (snd y0) = pos s0 \<and> rd_calls (snd y0) = rd_calls s0 \<and>
       (fst y0 \<longrightarrow> dst (snd y0) = dst s0 @ take (nat nr0) (drop (nat off0) buf0))"
proof -
  let ?P = "\<lambda>buf off nr s y. 0 \<le> off \<longrightarrow>
       io_frame s (snd y) \<and> pos (snd y) = pos s \<and> rd_calls (snd y) = rd_calls s \<and>
       (fst y \<longrightarrow> dst (snd y) = dst s @ take (nat nr) (drop (nat off) buf))"
  have "?P buf0 off0 nr0 s0 y0"
  proof (rule write_chunk.raw_induct[where P = ?P, OF _ run])
    fix rec buf off nr s y
    assume IH: "\<And>buf off nr s y. rec buf off nr s = Some y \<Longrightarrow> ?P buf off nr s y"
      and eq: "(if 0 < nr
          then case sys_write (drop (nat off) buf) nr s of
               (nw, s1) \<Rightarrow> if nw < 0 then Some (False, s1)
                 else rec buf (off + nw) (nr - nw) s1
          else Some (True, s)) = Some y"
    show "?P buf off nr s y"
    proof (cases "0 < nr")
      case False
      with eq show ?thesis by (auto simp: io_frame_refl)
    next
      case True
      obtain nw s1 where w: "sys_write (drop (nat off) buf) nr s = (nw, s1)"
        by (cases "sys_write (drop (nat off) buf) nr s")
      note wr = sys_write_result[OF w]
      show ?thesis
      proof (cases "nw < 0")
        case neg: True
        with eq True w have "y = (False, s1)" by simp
        with wr show ?thesis by simp
      next
        case nn: False
        with eq True w have r: "rec buf (off + nw) (nr - nw) s1 = Some y" by simp
        note ih = IH[OF r]
        show ?thesis
        proof
          assume o: "0 \<le> off"
          with nn ih have
            i: "io_frame s1 (snd y)" "pos (snd y) = pos s1" "rd_calls (snd y) = rd_calls s1"
              "fst y \<longrightarrow> dst (snd y) = dst s1 @ take (nat (nr - nw)) (drop (nat (off + nw)) buf)"
            by simp_all
          from wr nn True have le: "nw \<le> nr" "0 \<le> nw"
            and d1: "dst s1 = dst s @ take (nat nw) (drop (nat off) buf)"
            by simp_all
          have "take (nat nw) (drop (nat off) buf) @
                  take (nat (nr - nw)) (drop (nat (off + nw)) buf)
                = take (nat nr) (drop (nat off) buf)"
          proof -
            from le o have "nat (off + nw) = nat nw + nat off" "nat nr = nat nw + nat (nr - nw)"
              by simp_all
            then show ?thesis by (simp add: take_add drop_drop[symmetric] del: drop_drop)
          qed
          with i d1 wr io_frame_trans[of s s1 "snd y"] show
            "io_frame s (snd y) \<and> pos (snd y) = pos s \<and> rd_calls (snd y) = rd_calls s \<and>
             (fst y \<longrightarrow> dst (snd y) = dst s @ take (nat nr) (drop (nat off) buf))"
            by simp
        qed
      qed
    qed
  qed
  with off0 show ?thesis by simp
qed

lemma write_chunk_total:
  "(\<forall>k. wr_plan s k \<noteq> Upto 0) \<Longrightarrow> \<exists>y. write_chunk buf off nr s = Some y"
proof (induction "nat nr" arbitrary: off nr s rule: less_induct)
  case less
  show ?case
  proof (cases "0 < nr")
    case False
    then show ?thesis by (subst write_chunk.simps) auto
  next
    case True
    obtain nw s1 where w: "sys_write (drop (nat off) buf) nr s = (nw, s1)"
      by (cases "sys_write (drop (nat off) buf) nr s")
    note wr = sys_write_result[OF w]
    show ?thesis
    proof (cases "nw < 0")
      case neg: True
      with True w show ?thesis by (subst write_chunk.simps) auto
    next
      case nn: False
      from less.prems have "wr_plan s (wr_calls s) \<noteq> Upto 0" by simp
      from sys_write_progress[OF w this True] nn have "0 < nw" by simp
      moreover from wr nn True have "nw \<le> nr" by simp
      ultimately have "nat (nr - nw) < nat nr" by simp
      moreover from wr less.prems have "\<forall>k. wr_plan s1 k \<noteq> Upto 0"
        by (simp add: io_frame_def)
      ultimately have "\<exists>y. write_chunk buf (off + nw) (nr - nw) s1 = Some y"
        by (rule less.hyps)
      with True w nn show ?thesis by (subst write_chunk.simps) auto
    qed
  qed
qed

lemma write_chunk_stuck:
  assumes nr: "0 < nr0" and st: "\<forall>k\<ge>wr_calls s0. wr_plan s0 k = Upto 0"
  shows "write_chunk buf0 off0 nr0 s0 = None"
proof (rule ccontr)
  assume "write_chunk buf0 off0 nr0 s0 \<noteq> None"
  then obtain y0 where run: "write_chunk buf0 off0 nr0 s0 = Some y0" by auto
  let ?P = "\<lambda>(buf :: string) (off :: int) nr s (y :: bool \<times> io).
       \<not> (0 < nr \<and> (\<forall>k\<ge>wr_calls s. wr_plan s k = Upto 0))"
  have "?P buf0 off0 nr0 s0 y0"
  proof (rule write_chunk.raw_induct[where P = ?P, OF _ run])
    fix rec buf off nr s y
    assume IH: "\<And>buf off nr s y. rec buf off nr s = Some y \<Longrightarrow> ?P buf off nr s y"
      and eq: "(if 0 < nr
          then case sys_write (drop (nat off) buf) nr s of
               (nw, s1) \<Rightarrow> if nw < 0 then Some (False, s1)
                 else rec buf (off + nw) (nr - nw) s1
          else Some (True, s)) = Some y"
    show "?P buf off nr s y"
    proof
      assume a: "0 < nr \<and> (\<forall>k\<ge>wr_calls s. wr_plan s k = Upto 0)"
      then have "wr_plan s (wr_calls s) = Upto 0" by simp
      note w = sys_write_stuck[OF this, of "drop (nat off) buf" nr]
      with eq a have "rec buf off nr (s\<lparr>wr_calls := Suc (wr_calls s)\<rparr>) = Some y" by simp
      from IH[OF this] a show False by simp
    qed
  qed
  with nr st show False by simp
qed

lemma copy_file_simple_result:
  assumes run: "copy_file_simple s0 = Some y0"
  shows "io_frame s0 (snd y0) \<and>
         (fst y0 = 0 \<longrightarrow> dst (snd y0) = dst s0 @ drop (pos s0) (src s0))"
proof -
  let ?P = "\<lambda>s (y :: int \<times> io). io_frame s (snd y) \<and>
         (fst y = 0 \<longrightarrow> dst (snd y) = dst s @ drop (pos s) (src s))"
  show "?P s0 y0"
  proof (rule copy_file_simple.raw_induct[where P = ?P, OF _ run])
    fix rec :: "io \<Rightarrow> (int \<times> io) option" and s :: io and y :: "int \<times> io"
    assume IH: "\<And>s y. rec s = Some y \<Longrightarrow> ?P s y"
      and eq: "(case sys_read (8 * 1024) s of
          (nr, buf, s1) \<Rightarrow>
            if 0 < nr
            then Option.bind (write_chunk buf 0 nr s1)
                  (\<lambda>(ok, s2). if ok then rec s2 else Some (- 2, s2))
            else if nr < 0 then Some (- 1, s1) else Some (0, s1)) = Some y"
    obtain nr buf s1 where r: "sys_read (8 * 1024) s = (nr, buf, s1)"
      by (cases "sys_read (8 * 1024) s")
    note rr = sys_read_result[OF r]
    show "?P s y"
    proof (cases "0 < nr")
      case False
      with eq r rr show ?thesis by (auto split: if_splits)
    next
      case True
      with eq r obtain ok s2 where w: "write_chunk buf 0 nr s1 = Some (ok, s2)"
        and k: "(if ok then rec s2 else Some (- 2, s2)) = Some y"
        by (auto simp: bind_eq_Some_conv)
      from write_chunk_result[OF w] have
        wr: "io_frame s1 s2" "pos s2 = pos s1" "ok \<longrightarrow> dst s2 = dst s1 @ take (nat nr) buf"
        by simp_all
      from rr True have rb: "buf = take (nat nr) (drop (pos s) (src s))"
        "nat nr \<le> length (src s) - pos s"
        "pos s1 = pos s + nat nr" "dst s1 = dst s" "io_frame s s1"
        by simp_all
      note f2 = io_frame_trans[OF rb(5) wr(1)]
      show ?thesis
      proof (cases ok)
        case False
        with k f2 show ?thesis by auto
      next
        case True
        with k have "rec s2 = Some y" by simp
        note ih = IH[OF this]
        from True wr rb have d2: "dst s2 = dst s @ take (nat nr) (drop (pos s) (src s))"
          by simp
        from wr rb have p2: "pos s2 = pos s + nat nr" by simp
        from f2 have s2: "src s2 = src s" by (simp add: io_frame_def)
        have "dst s2 @ drop (pos s2) (src s2) = dst s @ drop (pos s) (src s)"
          unfolding d2 p2 s2
          by (simp add: add.commute[of "pos s"] drop_drop[symmetric] del: drop_drop)
        with ih io_frame_trans[OF f2] show ?thesis by simp
      qed
    qed
  qed
qed

lemma copy_file_simple_total:
  "(\<forall>k. wr_plan s k \<noteq> Upto 0) \<Longrightarrow> \<exists>y. copy_file_simple s = Some y"
proof (induction "length (src s) - pos s" arbitrary: s rule: less_induct)
  case less
  obtain nr buf s1 where r: "sys_read (8 * 1024) s = (nr, buf, s1)"
    by (cases "sys_read (8 * 1024) s")
  note rr = sys_read_result[OF r]
  show ?case
  proof (cases "0 < nr")
    case False
    with r show ?thesis by (subst copy_file_simple.simps) auto
  next
    case True
    from rr less.prems have p1: "\<forall>k. wr_plan s1 k \<noteq> Upto 0" by (simp add: io_frame_def)
    from write_chunk_total[OF this] obtain ok s2 where w: "write_chunk buf 0 nr s1 = Some (ok, s2)"
      by fastforce
    from write_chunk_result[OF w] have wr: "io_frame s1 s2" "pos s2 = pos s1" by simp_all
    show ?thesis
    proof (cases ok)
      case False
      with True r w show ?thesis by (subst copy_file_simple.simps) auto
    next
      case ok: True
      from rr True have "pos s1 = pos s + nat nr" "nat nr \<le> length (src s) - pos s"
        "src s1 = src s"
        by (simp_all add: io_frame_def)
      then have "length (src s2) - pos s2 < length (src s) - pos s"
        using wr True by (simp add: io_frame_def)
      moreover from wr p1 have "\<forall>k. wr_plan s2 k \<noteq> Upto 0" by (simp add: io_frame_def)
      ultimately have "\<exists>y. copy_file_simple s2 = Some y" by (rule less.hyps)
      with True r w ok show ?thesis by (subst copy_file_simple.simps) auto
    qed
  qed
qed

lemma copy_file_simple_stuck:
  assumes "pos s < length (src s)" and "rd_plan s (rd_calls s) \<noteq> Err"
    and st: "\<forall>k\<ge>wr_calls s. wr_plan s k = Upto 0"
  shows "copy_file_simple s = None"
proof -
  obtain nr buf s1 where r: "sys_read (8 * 1024) s = (nr, buf, s1)"
    by (cases "sys_read (8 * 1024) s")
  note rr = sys_read_result[OF r]
  from assms(2) r have "0 \<le> nr" by (auto simp: sys_read_def Let_def split: xfer.splits)
  with rr assms(1) have pos: "0 < nr" by (cases "nr = 0") auto
  from rr st have "\<forall>k\<ge>wr_calls s1. wr_plan s1 k = Upto 0" by (simp add: io_frame_def)
  from write_chunk_stuck[OF pos this] have "write_chunk buf 0 nr s1 = None" .
  with r pos show ?thesis by (subst copy_file_simple.simps) auto
qed

lemmas copy_eval =
  ul_copy_file_def sendfile_loop.simps drain_loop.simps copy_file_simple.simps
  write_chunk.simps sys_read_def sys_write_def sys_sendfile_def Let_def

lemma drain_loop_result:
  "drain_loop s = Some y \<Longrightarrow>
     io_frame s (snd y) \<and> (fst y = 0 \<longrightarrow> dst (snd y) = dst s @ drop (pos s) (src s))"
proof (induction s rule: drain_loop.induct)
  case (1 s)
  obtain nw s1 where f: "sys_sendfile (1024 * 1024) s = (nw, s1)"
    by (cases "sys_sendfile (1024 * 1024) s")
  note sr = sys_sendfile_result[OF f]
  show ?case
  proof (cases "nw = 0")
    case True
    with "1.prems" f have "y = (0, s1)" by (simp add: drain_loop.simps[of s])
    with sr True show ?thesis by auto
  next
    case nz: False
    show ?thesis
    proof (cases "nw < 0")
      case True
      with "1.prems" f nz have "copy_file_simple s1 = Some y" by (simp add: drain_loop.simps[of s])
      from copy_file_simple_result[OF this] sr True io_frame_trans[of s s1 "snd y"]
      show ?thesis by (auto simp: io_frame_def)
    next
      case False
      with "1.prems" f nz have l: "drain_loop s1 = Some y" by (simp add: drain_loop.simps[of s])
      from "1.IH"[OF f[symmetric] nz False l] have
        ih: "io_frame s1 (snd y)" "fst y = 0 \<longrightarrow> dst (snd y) = dst s1 @ drop (pos s1) (src s1)"
        by simp_all
      from sr False have d1: "dst s1 = dst s @ take (nat nw) (drop (pos s) (src s))"
        and p1: "pos s1 = pos s + nat nw" and s1: "src s1 = src s" and f1: "io_frame s s1"
        by (simp_all add: io_frame_def)
      have "dst s1 @ drop (pos s1) (src s1) = dst s @ drop (pos s) (src s)"
        unfolding d1 p1 s1
        by (simp add: add.commute[of "pos s"] drop_drop[symmetric] del: drop_drop)
      with ih io_frame_trans[OF f1 ih(1)] show ?thesis by simp
    qed
  qed
qed

lemma sendfile_loop_result:
  "sendfile_loop left s = Some y \<Longrightarrow> 0 \<le> left \<Longrightarrow>
     io_frame s (snd y) \<and> (fst y = 0 \<longrightarrow> dst (snd y) = dst s @ drop (pos s) (src s))"
proof (induction left s rule: sendfile_loop.induct)
  case (1 left s)
  show ?case
  proof (cases "left = 0")
    case True
    with "1.prems" have "drain_loop s = Some y" by (simp add: sendfile_loop.simps[of 0 s])
    then show ?thesis by (rule drain_loop_result)
  next
    case lz: False
    obtain nw s1 where f: "sys_sendfile left s = (nw, s1)"
      by (cases "sys_sendfile left s")
    note sr = sys_sendfile_result[OF f]
    show ?thesis
    proof (cases "nw < 0")
      case True
      with "1.prems" f lz have "copy_file_simple s1 = Some y"
        by (simp add: sendfile_loop.simps[of left s])
      from copy_file_simple_result[OF this] sr True io_frame_trans[of s s1 "snd y"]
      show ?thesis by (auto simp: io_frame_def)
    next
      case nn: False
      show ?thesis
      proof (cases "nw = 0")
        case True
        with "1.prems" f lz have "y = (0, s1)" by (simp add: sendfile_loop.simps[of left s])
        with sr True lz "1.prems"(2) show ?thesis by auto
      next
        case nz: False
        with "1.prems" f lz nn have l: "sendfile_loop (left - nw) s1 = Some y"
          by (simp add: sendfile_loop.simps[of left s])
        from sr nn "1.prems"(2) have "0 \<le> left - nw" by (simp add: nat_le_eq_zle)
        from "1.IH"[OF lz f[symmetric] nn nz l this] have
          ih: "io_frame s1 (snd y)" "fst y = 0 \<longrightarrow> dst (snd y) = dst s1 @ drop (pos s1) (src s1)"
          by simp_all
        from sr nn have d1: "dst s1 = dst s @ take (nat nw) (drop (pos s) (src s))"
          and p1: "pos s1 = pos s + nat nw" and s1: "src s1 = src s" and f1: "io_frame s s1"
          by (simp_all add: io_frame_def)
        have "dst s1 @ drop (pos s1) (src s1) = dst s @ drop (pos s) (src s)"
          unfolding d1 p1 s1
          by (simp add: add.commute[of "pos s"] drop_drop[symmetric] del: drop_drop)
        with ih io_frame_trans[OF f1 ih(1)] show ?thesis by simp
      qed
    qed
  qed
qed

lemma io_frame_src: "io_frame s s' \<Longrightarrow> src s' = src s"
  by (simp add: io_frame_def)

section \<open>The file copier\<close>

text \<open>
  Claim C5. When \<^verbatim>\<open>ul_copy_file\<close> (or \<^verbatim>\<open>copy_file_simple\<close> alone) returns \<open>0\<close>, the
  destination has received exactly the bytes of the source from the read offset at
  the call to the end of the file, in order, after what it held before; the source is
  unchanged. This holds for every source length (none, or more than the buffer of
  \<open>8192\<close> bytes), however the kernel splits the reads, writes and transfers, with and
  without \<^verbatim>\<open>HAVE_SENDFILE\<close>. A source with nothing left to read adds nothing. When a
  \<^verbatim>\<open>sendfile\<close> call fails in the first loop, the result is that of \<^verbatim>\<open>copy_file_simple\<close>
  started in the state the failed call left: the offset and the destination are where
  the transfers before it put them.
\<close>

theorem ul_copy_file_exact:
  "(ul_copy_file cfg s = Some (0, s') \<longrightarrow>
      dst s' = dst s @ drop (pos s) (src s) \<and> src s' = src s) \<and>
   (copy_file_simple s = Some (0, s') \<longrightarrow>
      dst s' = dst s @ drop (pos s) (src s) \<and> src s' = src s) \<and>
   (ul_copy_file cfg s = Some (0, s') \<longrightarrow> length (src s) \<le> pos s \<longrightarrow> dst s' = dst s) \<and>
   (left \<noteq> 0 \<longrightarrow> sys_sendfile left s = (nw, s1) \<longrightarrow> nw < 0 \<longrightarrow>
      sendfile_loop left s = copy_file_simple s1 \<and> pos s1 = pos s \<and> dst s1 = dst s \<and>
      src s1 = src s)"
proof -
  have simple: "dst t' = dst t @ drop (pos t) (src t) \<and> src t' = src t"
    if "copy_file_simple t = Some (0, t')" for t t'
    using copy_file_simple_result[OF that] by (simp add: io_frame_src)
  have A: "dst s' = dst s @ drop (pos s) (src s) \<and> src s' = src s"
    if run: "ul_copy_file cfg s = Some (0, s')"
  proof (cases "HAVE_SENDFILE cfg \<and> st_ok s \<and> st_isreg s")
    case True
    with run have "sendfile_loop (int (st_size s)) s = Some (0, s')"
      by (simp add: ul_copy_file_def)
    from sendfile_loop_result[OF this] show ?thesis by (simp add: io_frame_src)
  next
    case False
    with run have "copy_file_simple s = Some (0, s')"
      by (auto simp: ul_copy_file_def split: if_splits)
    then show ?thesis by (rule simple)
  qed
  have B: "dst s' = dst s" if "ul_copy_file cfg s = Some (0, s')" "length (src s) \<le> pos s"
    using A[OF that(1)] that(2) by simp
  have C: "sendfile_loop left s = copy_file_simple s1 \<and> pos s1 = pos s \<and> dst s1 = dst s \<and>
      src s1 = src s"
    if "left \<noteq> 0" and f: "sys_sendfile left s = (nw, s1)" and "nw < 0"
    using that sys_sendfile_result[OF f]
    by (simp add: sendfile_loop.simps[of left s] io_frame_src)
  from A simple B C show ?thesis by blast
qed

text \<open>
  C5 at concrete inputs: \<^verbatim>\<open>hello world\<close> with a \<^verbatim>\<open>sendfile\<close> failure after five bytes and
  short writes in the fallback; the same without \<^verbatim>\<open>sendfile\<close>; an empty source; and the
  failing transfer itself.
\<close>

theorem ul_copy_file_exact_witness:
  "(\<exists>s'. ul_copy_file linux copy_state = Some (0, s') \<and> dst s' = ''hello world'') \<and>
   (\<exists>s'. ul_copy_file portable copy_state = Some (0, s') \<and> dst s' = ''hello world'') \<and>
   (\<exists>s'. ul_copy_file linux (copy_state\<lparr>src := [], st_size := 0\<rparr>) = Some (0, s') \<and>
          dst s' = []) \<and>
   (\<exists>s1. sys_sendfile 6 (copy_state\<lparr>pos := 5, dst := ''hello'', sf_calls := 1\<rparr>) = (- 1, s1) \<and>
          sendfile_loop 6 (copy_state\<lparr>pos := 5, dst := ''hello'', sf_calls := 1\<rparr>)
            = copy_file_simple s1 \<and> pos s1 = 5 \<and> dst s1 = ''hello'')"
proof -
  note T = ul_copy_file_exact
  have "map_option fst (ul_copy_file linux copy_state) = Some 0"
    by (simp add: copy_eval copy_state_def linux_def)
  then obtain a where a: "ul_copy_file linux copy_state = Some (0, a)" by auto
  from T[of linux copy_state a] a have 1: "dst a = ''hello world''"
    by (simp add: copy_state_def)
  have "map_option fst (ul_copy_file portable copy_state) = Some 0"
    by (simp add: copy_eval copy_state_def portable_def)
  then obtain b where b: "ul_copy_file portable copy_state = Some (0, b)" by auto
  from T[of portable copy_state b] b have 2: "dst b = ''hello world''"
    by (simp add: copy_state_def)
  let ?e = "copy_state\<lparr>src := [], st_size := 0\<rparr>"
  have "map_option fst (ul_copy_file linux ?e) = Some 0"
    by (simp add: copy_eval copy_state_def linux_def)
  then obtain c where c: "ul_copy_file linux ?e = Some (0, c)" by auto
  from T[of linux ?e c] c have 3: "dst c = []"
    by (simp add: copy_state_def)
  let ?m = "copy_state\<lparr>pos := 5, dst := ''hello'', sf_calls := 1\<rparr>"
  obtain s1 where f: "sys_sendfile 6 ?m = (- 1, s1)"
    by (simp add: sys_sendfile_def copy_state_def)
  from T[where left = 6 and s = ?m and nw = "- 1" and ?s1.0 = s1] f
  have 4: "sendfile_loop 6 ?m = copy_file_simple s1 \<and> pos s1 = 5 \<and> dst s1 = ''hello''"
    by simp
  from a 1 b 2 c 3 f 4 show ?thesis by blast
qed

text \<open>
  Claim C9. In the first \<^verbatim>\<open>sendfile\<close> loop, a call that reports zero bytes while the
  counter \<open>left\<close> is not zero ends the copy with the result \<open>0\<close>, in the state that call
  left; for the first call of \<^verbatim>\<open>ul_copy_file\<close> on a regular file of non-zero size this
  is the result of the whole function.
\<close>

theorem sendfile_zero_is_success:
  "(left \<noteq> 0 \<longrightarrow> sys_sendfile left s = (0, s1) \<longrightarrow> sendfile_loop left s = Some (0, s1)) \<and>
   (HAVE_SENDFILE cfg \<longrightarrow> st_ok s \<longrightarrow> st_isreg s \<longrightarrow> st_size s \<noteq> 0 \<longrightarrow>
      sys_sendfile (int (st_size s)) s = (0, s1) \<longrightarrow> ul_copy_file cfg s = Some (0, s1))"
proof -
  have A: "sendfile_loop left s = Some (0, s1)"
    if "left \<noteq> 0" "sys_sendfile left s = (0, s1)" for left
    using that by (simp add: sendfile_loop.simps[of left s])
  have B: "ul_copy_file cfg s = Some (0, s1)"
    if "HAVE_SENDFILE cfg" "st_ok s" "st_isreg s" "st_size s \<noteq> 0"
      "sys_sendfile (int (st_size s)) s = (0, s1)"
    using that A[of "int (st_size s)"] by (simp add: ul_copy_file_def)
  from A B show ?thesis by blast
qed

text \<open>
  C9 at concrete inputs: a file of three bytes whose size was observed as ten (the
  second transfer reports zero with seven bytes still counted), and one that has
  become empty.
\<close>

theorem sendfile_zero_is_success_witness:
  "(\<exists>s1. sys_sendfile 7 (shrunk_state\<lparr>pos := 3, dst := ''abc'', sf_calls := 1\<rparr>) = (0, s1) \<and>
          sendfile_loop 7 (shrunk_state\<lparr>pos := 3, dst := ''abc'', sf_calls := 1\<rparr>) = Some (0, s1)) \<and>
   (\<exists>s1. sys_sendfile 10 (shrunk_state\<lparr>src := []\<rparr>) = (0, s1) \<and>
          ul_copy_file linux (shrunk_state\<lparr>src := []\<rparr>) = Some (0, s1)) \<and>
   map_option (dst \<circ> snd) (ul_copy_file linux shrunk_state) = Some ''abc'' \<and>
   map_option fst (ul_copy_file linux shrunk_state) = Some 0"
proof -
  note T = sendfile_zero_is_success
  let ?m = "shrunk_state\<lparr>pos := 3, dst := ''abc'', sf_calls := 1\<rparr>"
  obtain s1 where f: "sys_sendfile 7 ?m = (0, s1)"
    by (simp add: sys_sendfile_def shrunk_state_def)
  from T[where left = 7 and s = ?m and ?s1.0 = s1] f
  have 1: "sendfile_loop 7 ?m = Some (0, s1)" by simp
  let ?e = "shrunk_state\<lparr>src := []\<rparr>"
  obtain s2 where g: "sys_sendfile 10 ?e = (0, s2)"
    by (simp add: sys_sendfile_def shrunk_state_def)
  from T[where cfg = linux and s = ?e and ?s1.0 = s2] g
  have 2: "ul_copy_file linux ?e = Some (0, s2)"
    by (simp add: linux_def shrunk_state_def)
  have 3: "map_option (dst \<circ> snd) (ul_copy_file linux shrunk_state) = Some ''abc''"
    "map_option fst (ul_copy_file linux shrunk_state) = Some 0"
    by (simp_all add: copy_eval shrunk_state_def linux_def)
  from f 1 g 2 3 show ?thesis by blast
qed

text \<open>
  Claim C10. If no \<^verbatim>\<open>write\<close> call ever accepts zero bytes, \<^verbatim>\<open>copy_file_simple\<close> returns
  for every state (the source is a finite list). The precondition is needed: with
  bytes left to read, a read that does not fail and writes that accept nothing from
  then on, the function never returns. A chunk whose inner loop ends normally has
  been appended to the destination in full, with no read in between.
\<close>

theorem copy_file_simple_termination:
  "((\<forall>k. wr_plan s k \<noteq> Upto 0) \<longrightarrow> (\<exists>y. copy_file_simple s = Some y)) \<and>
   (pos s < length (src s) \<longrightarrow> rd_plan s (rd_calls s) \<noteq> Err \<longrightarrow>
      (\<forall>k\<ge>wr_calls s. wr_plan s k = Upto 0) \<longrightarrow> copy_file_simple s = None) \<and>
   (write_chunk buf 0 (int (length buf)) s = Some (True, s') \<longrightarrow>
      dst s' = dst s @ buf \<and> pos s' = pos s \<and> rd_calls s' = rd_calls s)"
proof -
  have C: "dst s' = dst s @ buf \<and> pos s' = pos s \<and> rd_calls s' = rd_calls s"
    if "write_chunk buf 0 (int (length buf)) s = Some (True, s')"
    using write_chunk_result[OF that] by simp
  from copy_file_simple_total[of s] copy_file_simple_stuck[of s] C show ?thesis by blast
qed

text \<open>
  C10 at concrete inputs: writes of at most three bytes (the copy returns, with the
  whole source at the destination), writes of zero bytes (it does not return), and
  the inner loop on a chunk of three bytes.
\<close>

theorem copy_file_simple_termination_witness:
  "(\<forall>k. wr_plan copy_state k \<noteq> Upto 0) \<and>
   (\<exists>y. copy_file_simple copy_state = Some y) \<and>
   map_option (dst \<circ> snd) (copy_file_simple copy_state) = Some ''hello world'' \<and>
   copy_file_simple (copy_state\<lparr>wr_plan := \<lambda>k. Upto 0\<rparr>) = None \<and>
   (\<exists>s'. write_chunk ''abc'' 0 3 copy_state = Some (True, s') \<and> dst s' = ''abc'' \<and>
          rd_calls s' = 0)"
proof -
  note T = copy_file_simple_termination
  have p: "\<forall>k. wr_plan copy_state k \<noteq> Upto 0" by (simp add: copy_state_def)
  from T[of copy_state] p have 1: "\<exists>y. copy_file_simple copy_state = Some y" by simp
  have 2: "map_option (dst \<circ> snd) (copy_file_simple copy_state) = Some ''hello world''"
    by (simp add: copy_eval copy_state_def)
  let ?z = "copy_state\<lparr>wr_plan := \<lambda>k. Upto 0\<rparr>"
  from T[of ?z] have 3: "copy_file_simple ?z = None" by (simp add: copy_state_def)
  have "map_option fst (write_chunk ''abc'' 0 3 copy_state) = Some True"
    by (simp add: copy_eval copy_state_def)
  then obtain s' where w: "write_chunk ''abc'' 0 3 copy_state = Some (True, s')" by auto
  from T[where buf = "''abc''" and s = copy_state and s' = s'] w
  have 4: "dst s' = ''abc'' \<and> rd_calls s' = 0" by (simp add: copy_state_def)
  from p 1 2 3 w 4 show ?thesis by blast
qed

end
